theory Spec2Isabelle
  imports Complex_Main
begin

section \<open>JavaScript values\<close>

text \<open>
  A JavaScript number is modelled as a real number or \<open>NaN\<close>; the rounding of doubles
  and the two infinities are not modelled. A settings field or a symptom score holds a
  number, \<open>null\<close> or \<open>undefined\<close>; \<open>JNum n\<close> stands for every other value by the
  number \<open>n\<close> that \<open>Number(value)\<close> converts it to (\<open>NaN\<close> for a non-numeric value).
\<close>

datatype jsnum = NaN | Fin real

datatype jsval = JUndefined | JNull | JNum jsnum

fun jsNumber :: "jsval \<Rightarrow> jsnum" where
  "jsNumber JUndefined = NaN"
| "jsNumber JNull = Fin 0"
| "jsNumber (JNum n) = n"

text \<open>The operator \<open>a ?? b\<close>.\<close>

fun nullishOr :: "jsval \<Rightarrow> jsval \<Rightarrow> jsval" where
  "nullishOr JUndefined b = b"
| "nullishOr JNull b = b"
| "nullishOr (JNum n) b = JNum n"

text \<open>The operator \<open>a || b\<close> on a number, \<open>null\<close> or \<open>undefined\<close>: 0 and NaN are falsy.\<close>

fun truthy :: "jsval \<Rightarrow> bool" where
  "truthy JUndefined = False"
| "truthy JNull = False"
| "truthy (JNum NaN) = False"
| "truthy (JNum (Fin r)) = (r \<noteq> 0)"

definition falsyOr :: "jsval \<Rightarrow> jsval \<Rightarrow> jsval" where
  "falsyOr a b = (if truthy a then a else b)"

text \<open>
  \<open>clampNumber(value, min, max)\<close>: \<open>Number(value)\<close>, \<open>min\<close> when that is NaN, else
  \<open>Math.min(max, Math.max(min, n))\<close>. Every call passes literal bounds.
\<close>

definition clampNumber :: "jsval \<Rightarrow> real \<Rightarrow> real \<Rightarrow> real" where
  "clampNumber v mn mx = (case jsNumber v of NaN \<Rightarrow> mn | Fin n \<Rightarrow> min mx (max mn n))"

text \<open>\<open>Math.round\<close> rounds half up.\<close>

definition jsRound :: "real \<Rightarrow> int" where
  "jsRound x = \<lfloor>x + 1 / 2\<rfloor>"

text \<open>The remainder \<open>a % b\<close> for \<open>a \<ge> 0\<close> and \<open>b > 0\<close>, the only case the code uses.\<close>

definition jsRem :: "real \<Rightarrow> real \<Rightarrow> real" where
  "jsRem a b = a - b * of_int \<lfloor>a / b\<rfloor>"

section \<open>Dates\<close>

text \<open>
  A \<open>Date\<close> is its local time in milliseconds, counted from the local midnight that
  begins 1 January 1970 (a Thursday), in a zone without daylight-saving shifts: every
  local day has 86400000 ms, so \<open>setDate\<close> arithmetic is addition of whole days.
  A date key is represented by the number of its local day, and two keys are the same
  string exactly when the day numbers are equal. The string itself, which the code
  compares, is \<open>keyText\<close>: the year as \<open>getFullYear\<close> prints it, without padding, and the
  month and the day padded to two digits. The dates of the clock and of the records lie
  in the years 1000 to 9999; a date computed from them by \<open>addDays\<close> may lie later, and
  it is an invalid date when it leaves the range of \<open>Date\<close>, 8640000000000000 ms on
  either side of the epoch (the offset of the zone is left out of this limit).
\<close>

type_synonym date = int
type_synonym dateKey = int

definition msPerDay :: int where
  "msPerDay = 86400000"

definition getLocalDateKey :: "date \<Rightarrow> dateKey" where
  "getLocalDateKey d = d div msPerDay"

definition getDay :: "date \<Rightarrow> int" where
  "getDay d = (getLocalDateKey d + 4) mod 7"

definition addDays :: "date \<Rightarrow> int \<Rightarrow> date" where
  "addDays d n = d + n * msPerDay"

definition startOfDay :: "date \<Rightarrow> date" where
  "startOfDay d = getLocalDateKey d * msPerDay"

text \<open>\<open>new Date(y, m, d, hh, mi, 0, 0)\<close> on the local day of a date.\<close>

definition atTime :: "dateKey \<Rightarrow> nat \<times> nat \<Rightarrow> date" where
  "atTime k hm = k * msPerDay + (int (fst hm) * 60 + int (snd hm)) * 60000"

definition parseDateKeyToLocalDate :: "dateKey \<Rightarrow> nat \<times> nat \<Rightarrow> date" where
  "parseDateKeyToLocalDate k hm = atTime k hm"

definition isValidDate :: "date \<Rightarrow> bool" where
  "isValidDate d = (\<bar>d\<bar> \<le> 8640000000000000)"

text \<open>
  The calendar fields of a local day in the proleptic Gregorian calendar, as
  \<open>getFullYear\<close>, \<open>getMonth() + 1\<close> and \<open>getDate\<close> give them. Days are counted from
  1 March of the year 0 in eras of 400 years (146097 days), centuries (36524 days, the
  fourth one day longer), groups of four years (1461 days) and years (365 days, the
  fourth one day longer); \<open>yearOfEra\<close> returns the year of the era that begins in March
  and the day of that year.
\<close>

definition yearOfEra :: "int \<Rightarrow> int \<times> int" where
  "yearOfEra doe =
     (let cent = min 3 (doe div 36524); doc = doe - 36524 * cent;
          quad = doc div 1461; doq = doc mod 1461;
          yoq = min 3 (doq div 365); doy = doq - 365 * yoq
      in (100 * cent + 4 * quad + yoq, doy))"

definition yearDay :: "int \<Rightarrow> int \<times> int" where
  "yearDay k =
     (let z = k + 719468;
          (yoe, doy) = yearOfEra (z mod 146097)
      in (400 * (z div 146097) + yoe, doy))"

definition civilOfDay :: "dateKey \<Rightarrow> int \<times> int \<times> int" where
  "civilOfDay k =
     (let (y0, doy) = yearDay k;
          mp = (5 * doy + 2) div 153;
          d = doy - (153 * mp + 2) div 5 + 1
      in if mp < 10 then (y0, mp + 3, d) else (y0 + 1, mp - 9, d))"

text \<open>\<open>String(n)\<close> of an integer, and \<open>pad2\<close>, which is \<open>String(n).padStart(2, '0')\<close>.\<close>

definition digitChar :: "nat \<Rightarrow> char" where
  "digitChar n = ''0123456789'' ! n"

fun digits :: "nat \<Rightarrow> string" where
  "digits n = (if n < 10 then [digitChar n] else digits (n div 10) @ [digitChar (n mod 10)])"

declare digits.simps [simp del]

definition showInt :: "int \<Rightarrow> string" where
  "showInt n = (if n < 0 then CHR ''-'' # digits (nat (- n)) else digits (nat n))"

definition pad2 :: "int \<Rightarrow> string" where
  "pad2 n = (let s = showInt n in replicate (2 - length s) CHR ''0'' @ s)"

text \<open>The string that \<open>getLocalDateKey\<close> returns for the day \<open>k\<close>.\<close>

definition keyText :: "dateKey \<Rightarrow> string" where
  "keyText k = (let (y, m, d) = civilOfDay k
                in showInt y @ ''-'' @ pad2 m @ ''-'' @ pad2 d)"

text \<open>\<open>a < b\<close> on strings: the order of the first differing code unit, a proper prefix first.\<close>

fun strLess :: "string \<Rightarrow> string \<Rightarrow> bool" where
  "strLess [] [] = False"
| "strLess [] (y # ys) = True"
| "strLess (x # xs) [] = False"
| "strLess (x # xs) (y # ys) = ((of_char x :: nat) < of_char y \<or> (x = y \<and> strLess xs ys))"

definition compareDateKeys :: "dateKey \<Rightarrow> dateKey \<Rightarrow> int" where
  "compareDateKeys a b = (if a = b then 0 else if strLess (keyText a) (keyText b) then - 1 else 1)"

definition daysBetween :: "date \<Rightarrow> date \<Rightarrow> real" where
  "daysBetween a b = real_of_int \<bar>a - b\<bar> / (1000 * 60 * 60 * 24)"

definition startOfWeekMonday :: "date \<Rightarrow> date" where
  "startOfWeekMonday date =
     (let d = startOfDay date;
          mondayIndex = (getDay d + 6) mod 7
      in addDays d (- mondayIndex))"

definition isAfterTimeHHmm :: "date \<Rightarrow> nat \<times> nat \<Rightarrow> bool" where
  "isAfterTimeHHmm d hm = (atTime (getLocalDateKey d) hm \<le> d)"

section \<open>Records, settings and the checklist cache\<close>

text \<open>
  \<open>dateTimeISO\<close> is the instant \<open>new Date(r.dateTimeISO)\<close>; records whose date string
  does not parse are not modelled. \<open>nausea\<close> is \<open>r.symptoms?.nausea\<close>.
\<close>

record timed =
  dateTimeISO :: date

record weightRec = timed +
  weightKg :: real

record injectionRec = timed +
  nausea :: jsval

record measuresRec =
  dateISO :: dateKey

text \<open>
  \<open>injectionTime\<close> holds the two numbers the parts of a well-formed \<open>HH:mm\<close> string
  convert to, \<open>None\<close> when the field is empty or absent; \<open>weighDaysOfWeek\<close> is \<open>None\<close>
  when the field is not an array.
\<close>

record settings =
  injectionDayOfWeek :: jsval
  injectionTime :: "(nat \<times> nat) option"
  weighDaysOfWeek :: "jsnum list option"
  measureReminderEveryDays :: jsval

definition DEFAULTS :: settings where
  "DEFAULTS = \<lparr> injectionDayOfWeek = JNum (Fin 6),
                injectionTime = Some (9, 51),
                weighDaysOfWeek = Some [Fin 1, Fin 3, Fin 5],
                measureReminderEveryDays = JNum (Fin 14) \<rparr>"

record cache =
  weights :: "weightRec list"
  injections :: "injectionRec list"
  measures :: "measuresRec list"
  weightKeys :: "dateKey set"
  injectionKeys :: "dateKey set"
  measuresKeys :: "dateKey set"
  lastMeasures :: "measuresRec option"

text \<open>
  \<open>Array.prototype.sort\<close> is stable; \<open>sort_key\<close> is the stable insertion sort.
\<close>

definition sortByDateTimeDesc :: "('a timed_scheme) list \<Rightarrow> ('a timed_scheme) list" where
  "sortByDateTimeDesc xs = sort_key (\<lambda>r. - dateTimeISO r) xs"

definition sortByDateTimeAsc :: "('a timed_scheme) list \<Rightarrow> ('a timed_scheme) list" where
  "sortByDateTimeAsc xs = sort_key (\<lambda>r. dateTimeISO r) xs"

definition sortByDateDesc :: "measuresRec list \<Rightarrow> measuresRec list" where
  "sortByDateDesc ms = sort_key (\<lambda>m. - dateISO m) ms"

text \<open>The record store: the three object stores and the saved settings value.\<close>

record store =
  STORE_WEIGHTS :: "weightRec list"
  STORE_INJECTIONS :: "injectionRec list"
  STORE_MEASURES :: "measuresRec list"
  STORE_SETTINGS :: "settings option"

text \<open>
  Reads of the store return the value and the store they leave behind.
  \<open>getSettings\<close> spreads the saved value over \<open>DEFAULTS\<close>: a field that the saved
  value does not have keeps its default.
\<close>

definition mergeSettings :: "settings \<Rightarrow> settings" where
  "mergeSettings v =
     \<lparr> injectionDayOfWeek =
         (if injectionDayOfWeek v = JUndefined then injectionDayOfWeek DEFAULTS
          else injectionDayOfWeek v),
       injectionTime =
         (case injectionTime v of None \<Rightarrow> injectionTime DEFAULTS | Some t \<Rightarrow> Some t),
       weighDaysOfWeek =
         (case weighDaysOfWeek v of None \<Rightarrow> weighDaysOfWeek DEFAULTS | Some ds \<Rightarrow> Some ds),
       measureReminderEveryDays =
         (if measureReminderEveryDays v = JUndefined then measureReminderEveryDays DEFAULTS
          else measureReminderEveryDays v) \<rparr>"

definition getSettings :: "store \<Rightarrow> settings \<times> store" where
  "getSettings st =
     (case STORE_SETTINGS st of None \<Rightarrow> DEFAULTS | Some v \<Rightarrow> mergeSettings v, st)"

definition buildChecklistCache :: "store \<Rightarrow> cache \<times> store" where
  "buildChecklistCache st =
     (let ws = STORE_WEIGHTS st; ijs = STORE_INJECTIONS st; ms = STORE_MEASURES st;
          measuresSorted = sortByDateDesc ms
      in (\<lparr> weights = ws, injections = ijs, measures = ms,
            weightKeys = set (map (\<lambda>w. getLocalDateKey (dateTimeISO w)) ws),
            injectionKeys = set (map (\<lambda>i. getLocalDateKey (dateTimeISO i)) ijs),
            measuresKeys = set (map dateISO ms),
            lastMeasures = (case measuresSorted of [] \<Rightarrow> None | m # _ \<Rightarrow> Some m) \<rparr>, st))"

section \<open>Weekly consistency and streaks\<close>

text \<open>\<open>new Set(settings.weighDaysOfWeek || DEFAULTS.weighDaysOfWeek)\<close> and its \<open>has\<close>.\<close>

definition weighDowsOf :: "settings \<Rightarrow> jsnum set" where
  "weighDowsOf s =
     set (case weighDaysOfWeek s of None \<Rightarrow> [Fin 1, Fin 3, Fin 5] | Some ds \<Rightarrow> ds)"

definition hasDow :: "jsnum set \<Rightarrow> int \<Rightarrow> bool" where
  "hasDow S dow = (Fin (of_int dow) \<in> S)"

definition injDowOf :: "settings \<Rightarrow> real" where
  "injDowOf s = clampNumber (nullishOr (injectionDayOfWeek s) (injectionDayOfWeek DEFAULTS)) 0 6"

text \<open>The seven dates \<open>addDays(start, 0..6)\<close> of the Monday-to-Sunday block.\<close>

definition weekDates :: "date \<Rightarrow> date list" where
  "weekDates start = map (\<lambda>i. addDays start i) [0, 1, 2, 3, 4, 5, 6]"

text \<open>The loop that looks for the injection weekday in the block and breaks on it.\<close>

definition findInjectionDate :: "real \<Rightarrow> date \<Rightarrow> date option" where
  "findInjectionDate injDow start = find (\<lambda>d. of_int (getDay d) = injDow) (weekDates start)"

record weekly =
  expectedWeights :: nat
  doneWeights :: nat
  expectedInj :: nat
  doneInj :: nat
  expectedPoints :: nat
  donePoints :: nat
  pct :: int

text \<open>
  The computation inside \<open>renderWeeklyConsistency\<close>, returning the numbers it writes to
  the page. \<open>weekOffset\<close> is an integer.
\<close>

definition expectedWeighKeys :: "settings \<Rightarrow> date \<Rightarrow> dateKey list" where
  "expectedWeighKeys s start =
     map getLocalDateKey (filter (\<lambda>d. hasDow (weighDowsOf s) (getDay d)) (weekDates start))"

definition weekInjKey :: "settings \<Rightarrow> date \<Rightarrow> dateKey option" where
  "weekInjKey s start = map_option getLocalDateKey (findInjectionDate (injDowOf s) start)"

definition weekStartFor :: "date \<Rightarrow> int \<Rightarrow> date" where
  "weekStartFor nowDate weekOffset =
     (let offset = max 0 weekOffset;
          base = startOfWeekMonday nowDate
      in addDays base (- 7 * offset))"

definition weeklyConsistency :: "cache \<Rightarrow> settings \<Rightarrow> date \<Rightarrow> int \<Rightarrow> weekly" where
  "weeklyConsistency c s nowDate weekOffset =
     (let start = weekStartFor nowDate weekOffset;
          keys = expectedWeighKeys s start;
          injKey = weekInjKey s start;
          expectedWeights = length keys;
          doneWeights = length (filter (\<lambda>k. k \<in> weightKeys c) keys);
          expectedInj = (case injKey of None \<Rightarrow> 0 | Some k \<Rightarrow> 1);
          doneInj = (case injKey of None \<Rightarrow> 0 | Some k \<Rightarrow> if k \<in> injectionKeys c then 1 else 0);
          expectedPoints = expectedWeights + (if expectedInj \<noteq> 0 then 2 else 0);
          donePoints = doneWeights + (if doneInj \<noteq> 0 then 2 else 0);
          pct = (if expectedPoints \<noteq> 0
                 then jsRound ((real donePoints / real expectedPoints) * 100) else 0)
      in \<lparr> expectedWeights = expectedWeights, doneWeights = doneWeights,
           expectedInj = expectedInj, doneInj = doneInj,
           expectedPoints = expectedPoints, donePoints = donePoints, pct = pct \<rparr>)"

text \<open>
  \<open>countStreakWeights\<close>: the \<open>while (checked < maxLookbackDays)\<close> loop, with its
  \<open>break\<close> on a scheduled day without a weight key.
\<close>

function countStreakWeightsLoop ::
  "jsnum set \<Rightarrow> dateKey set \<Rightarrow> nat \<Rightarrow> date \<Rightarrow> nat \<Rightarrow> nat \<Rightarrow> nat" where
  "countStreakWeightsLoop weighDows wkeys maxLookbackDays d streak checked =
     (if checked < maxLookbackDays then
        (if hasDow weighDows (getDay d) then
           (if getLocalDateKey d \<in> wkeys
            then countStreakWeightsLoop weighDows wkeys maxLookbackDays
                   (addDays d (- 1)) (streak + 1) (checked + 1)
            else streak)
         else countStreakWeightsLoop weighDows wkeys maxLookbackDays
                (addDays d (- 1)) streak (checked + 1))
      else streak)"
  by pat_completeness auto
termination
  by (relation "measure (\<lambda>(weighDows, wkeys, m, d, streak, checked). m - checked)") auto

definition countStreakWeights :: "cache \<Rightarrow> settings \<Rightarrow> date \<Rightarrow> nat \<Rightarrow> nat" where
  "countStreakWeights c s nowDate maxLookbackDays =
     countStreakWeightsLoop (weighDowsOf s) (weightKeys c) maxLookbackDays
       (startOfDay nowDate) 0 0"



text \<open>
  \<open>computeScheduleAdherenceForRange\<close>; \<open>data\<close> is given by its weight and injection
  records, \<open>settings || DEFAULTS\<close> by an optional settings value.
\<close>

definition uniqueDateKeysFromDateTimeISO :: "('a timed_scheme) list \<Rightarrow> dateKey set" where
  "uniqueDateKeysFromDateTimeISO xs = set (map (\<lambda>it. getLocalDateKey (dateTimeISO it)) xs)"

definition computeScheduleAdherenceForRange ::
  "int \<Rightarrow> settings option \<Rightarrow> weightRec list \<Rightarrow> injectionRec list \<Rightarrow> date \<Rightarrow> weekly" where
  "computeScheduleAdherenceForRange rangeDays settings ws ijs nowDate =
     (let s = (case settings of None \<Rightarrow> DEFAULTS | Some v \<Rightarrow> v);
          endDate = startOfDay nowDate;
          start = addDays endDate (- (max 1 rangeDays - 1));
          weighDows = weighDowsOf s;
          injDow = injDowOf s;
          wKeys = uniqueDateKeysFromDateTimeISO ws;
          iKeys = uniqueDateKeysFromDateTimeISO ijs;
          days = map (\<lambda>i. addDays start (int i)) [0..<nat rangeDays];
          wDays = filter (\<lambda>d. hasDow weighDows (getDay d)) days;
          iDays = filter (\<lambda>d. of_int (getDay d) = injDow) days;
          expectedWeights = length wDays;
          doneWeights = length (filter (\<lambda>d. getLocalDateKey d \<in> wKeys) wDays);
          expectedInj = length iDays;
          doneInj = length (filter (\<lambda>d. getLocalDateKey d \<in> iKeys) iDays);
          expectedPoints = expectedWeights + expectedInj * 2;
          donePoints = doneWeights + doneInj * 2;
          pct = (if expectedPoints \<noteq> 0
                 then jsRound ((real donePoints / real expectedPoints) * 100) else 0)
      in \<lparr> expectedWeights = expectedWeights, doneWeights = doneWeights,
           expectedInj = expectedInj, doneInj = doneInj,
           expectedPoints = expectedPoints, donePoints = donePoints, pct = pct \<rparr>)"

section \<open>Weight deltas\<close>

definition pickWeightClosestAtOrBefore :: "weightRec list \<Rightarrow> date \<Rightarrow> weightRec option" where
  "pickWeightClosestAtOrBefore weightsDesc targetDate =
     find (\<lambda>w. dateTimeISO w \<le> targetDate) weightsDesc"

record weightDeltas =
  lastRec :: "weightRec option"
  lastDate :: "date option"
  d7 :: "real option"
  d14 :: "real option"
  d30 :: "real option"

definition computeWeightDeltas :: "weightRec list \<Rightarrow> weightDeltas" where
  "computeWeightDeltas weightsDesc =
     (case weightsDesc of
        [] \<Rightarrow> \<lparr> lastRec = None, lastDate = None, d7 = None, d14 = None, d30 = None \<rparr>
      | l # _ \<Rightarrow>
          (let lDate = dateTimeISO l;
               t7 = addDays lDate (- 7);
               t14 = addDays lDate (- 14);
               t30 = addDays lDate (- 30);
               w7 = pickWeightClosestAtOrBefore weightsDesc t7;
               w14 = pickWeightClosestAtOrBefore weightsDesc t14;
               w30 = pickWeightClosestAtOrBefore weightsDesc t30;
               d = (\<lambda>w. case w of None \<Rightarrow> None | Some x \<Rightarrow> Some (weightKg l - weightKg x))
           in \<lparr> lastRec = Some l, lastDate = Some lDate,
                d7 = d w7, d14 = d w14, d30 = d w30 \<rparr>))"

section \<open>Next scheduled injection\<close>

text \<open>
  \<open>candidate.setDate(candidate.getDate() + delta)\<close> for \<open>delta \<ge> 0\<close>: the day of the
  month is truncated to an integer, so \<open>\<lfloor>delta\<rfloor>\<close> whole days are added.
\<close>

definition setDatePlus :: "date \<Rightarrow> real \<Rightarrow> date" where
  "setDatePlus d delta = d + \<lfloor>delta\<rfloor> * msPerDay"

definition injectionTimeOf :: "settings \<Rightarrow> nat \<times> nat" where
  "injectionTimeOf s = (case injectionTime s of None \<Rightarrow> (9, 51) | Some hm \<Rightarrow> hm)"

definition computeNextScheduledDateTime :: "settings \<Rightarrow> date \<Rightarrow> date" where
  "computeNextScheduledDateTime s fromDate =
     (let dow = injDowOf s;
          hm = injectionTimeOf s;
          base = fromDate;
          currentDow = getDay base;
          delta = jsRem (dow - of_int currentDow + 7) 7;
          candidate = atTime (getLocalDateKey base) hm;
          delta2 = (if delta = 0 \<and> candidate \<le> base then 7 else delta)
      in setDatePlus candidate delta2)"

section \<open>Checklist\<close>

datatype itemKind = Weight | Injection | Measures

datatype itemStatus = Done | Pending | Late

text \<open>
  A checklist item without its display texts. \<open>warnAfterCutoff\<close> and \<open>status\<close> are
  \<open>None\<close> while the object has no such property.
\<close>

record item =
  kind :: itemKind
  dateKey :: dateKey
  required :: bool
  isDone :: bool
  warnAfterCutoff :: "bool option"
  status :: "itemStatus option"

definition CHECKLIST_CUTOFF_TIME :: "nat \<times> nat" where
  "CHECKLIST_CUTOFF_TIME = (12, 0)"

definition getStatus :: "item \<Rightarrow> date \<Rightarrow> itemStatus" where
  "getStatus it nowDate =
     (if isDone it then Done
      else if compareDateKeys (dateKey it) (getLocalDateKey nowDate) < 0 then Late
      else Pending)"

text \<open>
  \<open>Math.max(7, Math.floor(Number(settings.measureReminderEveryDays || 14)))\<close>;
  \<open>None\<close> is NaN.
\<close>

definition measuresEvery :: "settings \<Rightarrow> int option" where
  "measuresEvery s =
     (case jsNumber (falsyOr (measureReminderEveryDays s) (measureReminderEveryDays DEFAULTS)) of
        NaN \<Rightarrow> None
      | Fin r \<Rightarrow> Some (max 7 \<lfloor>r\<rfloor>))"

text \<open>
  \<open>computeMeasuresDueDateKey\<close>. A measures record always has its \<open>dateISO\<close>. \<open>None\<close> is
  the key \<open>NaN-NaN-NaN\<close> of an invalid date: it begins with a letter, which follows the
  digits and the minus sign, so it is not less than today's key and is returned.
\<close>

definition computeMeasuresDueDateKey :: "cache \<Rightarrow> settings \<Rightarrow> dateKey \<Rightarrow> dateKey option" where
  "computeMeasuresDueDateKey c s todayKey =
     (let every = measuresEvery s in
      case lastMeasures c of
        None \<Rightarrow> Some todayKey
      | Some m \<Rightarrow>
          (case every of
             None \<Rightarrow> None
           | Some n \<Rightarrow>
               (let base = parseDateKeyToLocalDate (dateISO m) (0, 0);
                    due = addDays base n
                in if \<not> isValidDate due then None
                   else (let dueKey = getLocalDateKey due
                         in if compareDateKeys dueKey todayKey < 0 then Some todayKey
                            else Some dueKey))))"

definition isWeightLoggedOn :: "dateKey \<Rightarrow> cache \<Rightarrow> bool" where
  "isWeightLoggedOn k c = (k \<in> weightKeys c)"

definition isInjectionLoggedOn :: "dateKey \<Rightarrow> cache \<Rightarrow> bool" where
  "isInjectionLoggedOn k c = (k \<in> injectionKeys c)"

definition isMeasuresLoggedOn :: "dateKey \<Rightarrow> cache \<Rightarrow> bool" where
  "isMeasuresLoggedOn k c = (k \<in> measuresKeys c)"

definition weightItems :: "date \<Rightarrow> cache \<Rightarrow> settings \<Rightarrow> date \<Rightarrow> item list" where
  "weightItems date c s nowDate =
     (let k = getLocalDateKey date; todayKey = getLocalDateKey nowDate; dow = getDay date in
      if (case weighDaysOfWeek s of None \<Rightarrow> False | Some ds \<Rightarrow> Fin (of_int dow) \<in> set ds)
      then (let dn = isWeightLoggedOn k c in
            [\<lparr> kind = Weight, dateKey = k, required = True, isDone = dn,
               warnAfterCutoff = Some (compareDateKeys k todayKey = 0
                  \<and> isAfterTimeHHmm nowDate CHECKLIST_CUTOFF_TIME \<and> \<not> dn),
               status = None \<rparr>])
      else [])"

definition injectionItems :: "date \<Rightarrow> cache \<Rightarrow> settings \<Rightarrow> date \<Rightarrow> item list" where
  "injectionItems date c s nowDate =
     (let k = getLocalDateKey date; todayKey = getLocalDateKey nowDate; dow = getDay date in
      if Fin (of_int dow) = jsNumber (injectionDayOfWeek s)
      then (let dn = isInjectionLoggedOn k c in
            [\<lparr> kind = Injection, dateKey = k, required = True, isDone = dn,
               warnAfterCutoff = Some (compareDateKeys k todayKey = 0
                  \<and> isAfterTimeHHmm nowDate CHECKLIST_CUTOFF_TIME \<and> \<not> dn),
               status = None \<rparr>])
      else [])"

definition measuresItems :: "date \<Rightarrow> cache \<Rightarrow> settings \<Rightarrow> date \<Rightarrow> item list" where
  "measuresItems date c s nowDate =
     (let k = getLocalDateKey date; todayKey = getLocalDateKey nowDate in
      case computeMeasuresDueDateKey c s todayKey of
        None \<Rightarrow> []
      | Some measuresDueKey \<Rightarrow>
          if compareDateKeys k measuresDueKey = 0
          then [\<lparr> kind = Measures, dateKey = k, required = False,
                  isDone = isMeasuresLoggedOn k c,
                  warnAfterCutoff = None, status = None \<rparr>]
          else [])"

text \<open>
  \<open>buildChecklistForDate\<close> with the cache and the settings given: the weight item, the
  injection item and the measures item in this order, then the status of each.
\<close>

definition buildChecklistForDate :: "date \<Rightarrow> cache \<Rightarrow> settings \<Rightarrow> date \<Rightarrow> item list" where
  "buildChecklistForDate date c s nowDate =
     map (\<lambda>it. it\<lparr> status := Some (getStatus it nowDate) \<rparr>)
       (weightItems date c s nowDate @ injectionItems date c s nowDate
          @ measuresItems date c s nowDate)"

text \<open>
  \<open>buildUpcomingChecklist\<close> and \<open>buildOverdueChecklist\<close> read the settings and the
  records from the store and the clock; \<open>nowDate\<close> is what \<open>now()\<close> returns during the
  call. The comparator of the final sort is \<open>compareDateKeys(b.dateKey, a.dateKey)\<close>;
  the keys it sorts are those of the days before the clock's day, which have four-digit
  years, and on such keys it is the descending order of the day numbers.
\<close>

definition buildUpcomingChecklist ::
  "nat \<Rightarrow> date \<Rightarrow> store \<Rightarrow> (dateKey \<times> int \<times> item list) list \<times> store" where
  "buildUpcomingChecklist days nowDate st =
     (let (s, st1) = getSettings st;
          (c, st2) = buildChecklistCache st1;
          base = startOfDay nowDate;
          entries = map (\<lambda>i. let d = addDays base (int i) in
                               (getLocalDateKey d, getDay d, buildChecklistForDate d c s nowDate))
                        [1..<Suc days]
      in (filter (\<lambda>(k, dow, items). items \<noteq> []) entries, st2))"

definition overdueOfDay :: "date \<Rightarrow> cache \<Rightarrow> settings \<Rightarrow> date \<Rightarrow> item list" where
  "overdueOfDay d c s nowDate =
     map (\<lambda>it. it\<lparr> status := Some Late, warnAfterCutoff := Some False \<rparr>)
       (filter (\<lambda>it. required it \<and> \<not> isDone it) (buildChecklistForDate d c s nowDate))"

definition buildOverdueChecklist :: "nat \<Rightarrow> date \<Rightarrow> store \<Rightarrow> item list \<times> store" where
  "buildOverdueChecklist daysBack nowDate st =
     (let (s, st1) = getSettings st;
          (c, st2) = buildChecklistCache st1;
          base = startOfDay nowDate;
          overdue = concat (map (\<lambda>i. overdueOfDay (addDays base (- int i)) c s nowDate)
                             [1..<Suc daysBack])
      in (sort_key (\<lambda>it. - dateKey it) overdue, st2))"

section \<open>Regularity and trend\<close>

datatype summaryNotes = FewData | Regular | Irregular | Stable | Falling | Rising

record regularity =
  recCount :: nat
  meanDays :: "real option"
  onTimeRate :: "real option"
  regNotes :: summaryNotes

definition safeRatio :: "real \<Rightarrow> real \<Rightarrow> real" where
  "safeRatio numerator denominator = (if denominator = 0 then 0 else numerator / denominator)"

text \<open>The intervals \<open>daysBetween(times[i], times[i - 1])\<close> for \<open>i = 1 .. length - 1\<close>.\<close>

fun intervalsOf :: "date list \<Rightarrow> real list" where
  "intervalsOf (a # b # ts) = daysBetween b a # intervalsOf (b # ts)"
| "intervalsOf ts = []"

definition computeInjectionRegularity :: "injectionRec list \<Rightarrow> regularity" where
  "computeInjectionRegularity injectionsDesc =
     (if length injectionsDesc < 2
      then \<lparr> recCount = length injectionsDesc, meanDays = None, onTimeRate = None,
             regNotes = FewData \<rparr>
      else
        (let times = sort (map dateTimeISO injectionsDesc);
             intervals = intervalsOf times;
             mean = sum_list intervals / real (length intervals);
             onTime = length (filter (\<lambda>d. 6 \<le> d \<and> d \<le> 8) intervals);
             rate = safeRatio (real onTime) (real (length intervals))
         in \<lparr> recCount = length injectionsDesc, meanDays = Some mean, onTimeRate = Some rate,
              regNotes = (if rate < 1 / 2 then Irregular else Regular) \<rparr>))"

record trend =
  startRec :: "weightRec option"
  endRec :: "weightRec option"
  deltaKg :: "real option"
  perWeekKg :: "real option"
  trendNotes :: summaryNotes

text \<open>The elapsed days of the trend: \<open>Math.max(1, daysBetween(endDate, startDate))\<close>.\<close>

definition trendDays :: "weightRec list \<Rightarrow> real" where
  "trendDays weightsDesc =
     (let asc = sortByDateTimeAsc weightsDesc
      in max 1 (daysBetween (dateTimeISO (last asc)) (dateTimeISO (hd asc))))"

definition computeWeightTrend :: "weightRec list \<Rightarrow> trend" where
  "computeWeightTrend weightsDesc =
     (if length weightsDesc < 2
      then \<lparr> startRec = None, endRec = None, deltaKg = None, perWeekKg = None,
             trendNotes = FewData \<rparr>
      else
        (let asc = sortByDateTimeAsc weightsDesc;
             st = hd asc;
             en = last asc;
             days = trendDays weightsDesc;
             dKg = weightKg en - weightKg st;
             perWeek = dKg / (days / 7)
         in \<lparr> startRec = Some st, endRec = Some en, deltaKg = Some dKg,
              perWeekKg = Some perWeek,
              trendNotes = (if perWeek \<ge> 2 / 10 then Rising
                            else if perWeek \<le> - (2 / 10) then Falling else Stable) \<rparr>))"

section \<open>Local insight rules\<close>

datatype insightTitle =
  Plateau | Retention | WeighRoutine | ScheduleIrregularity | HighNausea | NoAlerts

datatype severity = Ok | Info | Warn | Danger

text \<open>
  An insight item by its title and its \<open>kind\<close> property (here \<open>severity\<close>); the
  explanatory texts are left out.
\<close>

record insight =
  title :: insightTitle
  severity :: severity

definition plateauRule :: "cache \<Rightarrow> date \<Rightarrow> insight list" where
  "plateauRule c nowDate =
     (let cutoff14 = nowDate - 14 * 24 * 60 * 60 * 1000;
          w14 = sortByDateTimeAsc (filter (\<lambda>w. cutoff14 \<le> dateTimeISO w) (weights c))
      in if 6 \<le> length w14 then
           (let ys = map weightKg w14 in
            if 6 \<le> length ys \<and> Max (set ys) - Min (set ys) < 3 / 10
            then [\<lparr> title = Plateau, severity = Warn \<rparr>] else [])
         else [])"

text \<open>
  The loop over consecutive triples: \<open>continue\<close> on a triple that fails a test, one item
  and \<open>break\<close> on the first triple that passes all of them.
\<close>

fun retentionTriple :: "weightRec list \<Rightarrow> bool" where
  "retentionTriple (a # b # c # ws) =
     (if dateTimeISO b - dateTimeISO a > 48 * 60 * 60 * 1000 then retentionTriple (b # c # ws)
      else if weightKg b - weightKg a \<le> 1 then retentionTriple (b # c # ws)
      else if dateTimeISO c - dateTimeISO b > 72 * 60 * 60 * 1000 then retentionTriple (b # c # ws)
      else if \<bar>weightKg c - weightKg a\<bar> \<le> 3 / 10 then True
      else retentionTriple (b # c # ws))"
| "retentionTriple ws = False"

definition retentionRule :: "cache \<Rightarrow> insight list" where
  "retentionRule c =
     (if retentionTriple (sortByDateTimeAsc (weights c))
      then [\<lparr> title = Retention, severity = Info \<rparr>] else [])"

definition weighRoutineRule :: "cache \<Rightarrow> settings \<Rightarrow> date \<Rightarrow> insight list" where
  "weighRoutineRule c s nowDate =
     (let start = startOfWeekMonday nowDate;
          expected = expectedWeighKeys s start;
          dn = length (filter (\<lambda>k. k \<in> weightKeys c) expected)
      in if int (length expected) - int dn \<ge> 2
         then [\<lparr> title = WeighRoutine, severity = Warn \<rparr>] else [])"

definition scheduleRule :: "cache \<Rightarrow> settings \<Rightarrow> insight list" where
  "scheduleRule c s =
     (let injDow = injDowOf s in
      case sortByDateTimeDesc (injections c) of
        [] \<Rightarrow> []
      | lastInj # _ \<Rightarrow>
          if of_int (getDay (dateTimeISO lastInj)) \<noteq> injDow
          then [\<lparr> title = ScheduleIrregularity, severity = Warn \<rparr>] else [])"

text \<open>\<open>clampNumber(inj?.symptoms?.nausea ?? 0, 0, 10)\<close>.\<close>

definition nauseaScore :: "injectionRec \<Rightarrow> real" where
  "nauseaScore i = clampNumber (nullishOr (nausea i) (JNum (Fin 0))) 0 10"

definition nauseaRule :: "cache \<Rightarrow> insight list" where
  "nauseaRule c =
     (case sortByDateTimeDesc (injections c) of
        i0 # i1 # _ \<Rightarrow>
          if nauseaScore i0 \<ge> 7 \<and> nauseaScore i1 \<ge> 7
          then [\<lparr> title = HighNausea, severity = Danger \<rparr>] else []
      | _ \<Rightarrow> [])"

definition buildLocalInsights :: "cache \<Rightarrow> settings \<Rightarrow> date \<Rightarrow> insight list" where
  "buildLocalInsights c s nowDate =
     (let items = plateauRule c nowDate @ retentionRule c @ weighRoutineRule c s nowDate
                    @ scheduleRule c s @ nauseaRule c
      in if items = [] then [\<lparr> title = NoAlerts, severity = Ok \<rparr>] else items)"

section \<open>Notions used to state the properties\<close>

text \<open>
  \<open>c\<close> is a record of the list with the greatest timestamp at or before the target.
\<close>

definition isClosestAtOrBefore :: "weightRec list \<Rightarrow> date \<Rightarrow> weightRec \<Rightarrow> bool" where
  "isClosestAtOrBefore ws target c =
     (c \<in> set ws \<and> dateTimeISO c \<le> target
      \<and> (\<forall>w \<in> set ws. dateTimeISO w \<le> target \<longrightarrow> dateTimeISO w \<le> dateTimeISO c))"

text \<open>
  The delta at horizon \<open>h\<close> in the words of the specification: the weight of the last
  record minus that of the closest record at or before \<open>h\<close> days earlier, and null when
  no record is that old.
\<close>

definition deltaSpec :: "weightRec list \<Rightarrow> int \<Rightarrow> real option \<Rightarrow> bool" where
  "deltaSpec ws h r =
     (case ws of
        [] \<Rightarrow> False
      | l # _ \<Rightarrow>
          (let target = dateTimeISO l - h * msPerDay in
           if \<exists>w \<in> set ws. dateTimeISO w \<le> target
           then \<exists>c. isClosestAtOrBefore ws target c \<and> r = Some (weightKg l - weightKg c)
           else r = None))"

text \<open>The weekday of the local day with a given number.\<close>

definition dowOfKey :: "dateKey \<Rightarrow> int" where
  "dowOfKey k = (k + 4) mod 7"

text \<open>
  The scheduled weigh-in days among the \<open>n\<close> days \<open>today, today - 1, ...\<close> of the
  lookback window, the most recent first.
\<close>

definition scheduledKeysBack :: "jsnum set \<Rightarrow> dateKey \<Rightarrow> nat \<Rightarrow> dateKey list" where
  "scheduledKeysBack dows today n =
     filter (\<lambda>k. hasDow dows (dowOfKey k)) (map (\<lambda>i. today - int i) [0..<n])"

text \<open>What every item built for a date satisfies, whatever its status.\<close>

definition itemOk :: "date \<Rightarrow> date \<Rightarrow> item \<Rightarrow> bool" where
  "itemOk date nowDate it =
     (dateKey it = getLocalDateKey date
       \<and> (kind it = Measures \<longrightarrow> \<not> required it \<and> warnAfterCutoff it = None)
       \<and> (kind it \<noteq> Measures \<longrightarrow> required it
             \<and> warnAfterCutoff it = Some (getLocalDateKey date = getLocalDateKey nowDate
                  \<and> isAfterTimeHHmm nowDate CHECKLIST_CUTOFF_TIME \<and> \<not> isDone it)))"

text \<open>The local wall-clock time of a date, in milliseconds since midnight.\<close>

definition timeOfDay :: "date \<Rightarrow> int" where
  "timeOfDay d = d mod msPerDay"

text \<open>
  The last \<open>w\<close> decimal digits of a number, the days 1 January 1000 and
  31 December 9999, between which a year has four digits, and the order of the calendar
  fields.
\<close>

fun fixedDigits :: "nat \<Rightarrow> nat \<Rightarrow> string" where
  "fixedDigits 0 n = []"
| "fixedDigits (Suc w) n = fixedDigits w (n div 10) @ [digitChar (n mod 10)]"

definition minKey4 :: dateKey where
  "minKey4 = - 354285"

definition maxKey4 :: dateKey where
  "maxKey4 = 2932896"

definition civilLess :: "int \<times> int \<times> int \<Rightarrow> int \<times> int \<times> int \<Rightarrow> bool" where
  "civilLess p q = (case (p, q) of ((y, m, d), (y', m', d')) \<Rightarrow>
      y < y' \<or> (y = y' \<and> (m < m' \<or> (m = m' \<and> d < d'))))"

text \<open>
  Example data: Saturday 9 May 2026, 12:00 local time, is day 20582; the week began on
  Monday 4 May (day 20577). The store has weights on Monday, Wednesday and Friday of that
  week, injections on the last three Saturdays at 09:51 and one measurement on 27 April.
\<close>

definition exampleNow :: date where
  "exampleNow = 1778328000000"

definition exampleStore :: store where
  "exampleStore =
     \<lparr> STORE_WEIGHTS =
         [\<lparr> dateTimeISO = 1777881600000, weightKg = 80 \<rparr>,
          \<lparr> dateTimeISO = 1778054400000, weightKg = 159 / 2 \<rparr>,
          \<lparr> dateTimeISO = 1778227200000, weightKg = 79 \<rparr>],
       STORE_INJECTIONS =
         [\<lparr> dateTimeISO = 1777715460000, nausea = JNum (Fin 9) \<rparr>,
          \<lparr> dateTimeISO = 1778320260000, nausea = JNum (Fin 8) \<rparr>,
          \<lparr> dateTimeISO = 1777110660000, nausea = JNum (Fin 3) \<rparr>],
       STORE_MEASURES = [\<lparr> dateISO = 20570 \<rparr>],
       STORE_SETTINGS = None \<rparr>"

definition exampleCache :: cache where
  "exampleCache = fst (buildChecklistCache exampleStore)"

definition fractionalSettings :: settings where
  "fractionalSettings = DEFAULTS\<lparr> injectionDayOfWeek := JNum (Fin (5 / 2)) \<rparr>"

definition farCadence :: settings where
  "farCadence = DEFAULTS\<lparr> measureReminderEveryDays := JNum (Fin 3000000) \<rparr>"

definition endlessCadence :: settings where
  "endlessCadence = DEFAULTS\<lparr> measureReminderEveryDays := JNum (Fin 200000000) \<rparr>"

definition wednesdayWeight :: weightRec where
  "wednesdayWeight = \<lparr> dateTimeISO = 1778054400000, weightKg = 159 / 2 \<rparr>"

definition gapStore :: store where
  "gapStore = exampleStore\<lparr> STORE_WEIGHTS :=
       [\<lparr> dateTimeISO = 1777881600000, weightKg = 80 \<rparr>,
        \<lparr> dateTimeISO = 1778227200000, weightKg = 79 \<rparr>] \<rparr>"

definition fridayStore :: store where
  "fridayStore = exampleStore\<lparr> STORE_WEIGHTS :=
       [\<lparr> dateTimeISO = 1778227200000, weightKg = 79 \<rparr>] \<rparr>"

definition everyDaySettings :: settings where
  "everyDaySettings =
     DEFAULTS\<lparr> weighDaysOfWeek := Some [Fin 0, Fin 1, Fin 2, Fin 3, Fin 4, Fin 5, Fin 6] \<rparr>"

definition dailyWeight :: "nat \<Rightarrow> weightRec" where
  "dailyWeight i = \<lparr> dateTimeISO = 1778313600000 - int i * 86400000, weightKg = 80 \<rparr>"

definition dailyStore :: store where
  "dailyStore = exampleStore\<lparr> STORE_WEIGHTS := map dailyWeight [0..<120] \<rparr>"

definition sundayWeight :: weightRec where
  "sundayWeight = \<lparr> dateTimeISO = 1778400000000, weightKg = 80 \<rparr>"

definition mondayWeight :: weightRec where
  "mondayWeight = \<lparr> dateTimeISO = 1778486400000, weightKg = 157 / 2 \<rparr>"

definition calmStore :: store where
  "calmStore = exampleStore\<lparr> STORE_INJECTIONS :=
         [\<lparr> dateTimeISO = 1777110660000, nausea = JNum (Fin 9) \<rparr>,
          \<lparr> dateTimeISO = 1777715460000, nausea = JNum (Fin 3) \<rparr>,
          \<lparr> dateTimeISO = 1778320260000, nausea = JNum (Fin 8) \<rparr>] \<rparr>"

section \<open>Calendar arithmetic\<close>

lemma getLocalDateKey_addDays: "getLocalDateKey (addDays d n) = getLocalDateKey d + n"
  by (simp add: getLocalDateKey_def addDays_def msPerDay_def)

lemma getLocalDateKey_startOfDay: "getLocalDateKey (startOfDay d) = getLocalDateKey d"
  by (simp add: getLocalDateKey_def startOfDay_def msPerDay_def)

lemma getDay_addDays: "getDay (addDays d n) = (getDay d + n) mod 7"
  by (simp add: getDay_def getLocalDateKey_addDays mod_simps algebra_simps)

lemma getDay_startOfDay: "getDay (startOfDay d) = getDay d"
  by (simp add: getDay_def getLocalDateKey_startOfDay)

lemma getDay_range: "0 \<le> getDay d \<and> getDay d \<le> 6"
  by (simp add: getDay_def)

lemma getLocalDateKey_atTime:
  "hh < 24 \<Longrightarrow> mm < 60 \<Longrightarrow> getLocalDateKey (atTime k (hh, mm)) = k"
  unfolding getLocalDateKey_def atTime_def msPerDay_def
  by simp

lemma getDay_startOfWeekMonday: "getDay (startOfWeekMonday d) = 1"
  unfolding startOfWeekMonday_def Let_def getDay_addDays getDay_startOfDay
  using getDay_range[of d] by presburger

text \<open>
  A block of seven consecutive days holds exactly one day of each integer weekday, and the
  search loop returns it.
\<close>

lemma findInjectionDate_int:
  assumes "0 \<le> w" "w \<le> 6"
  shows "findInjectionDate (of_int w) start = Some (addDays start ((w - getDay start) mod 7))"
proof -
  have g: "0 \<le> getDay start \<and> getDay start \<le> 6" by (rule getDay_range)
  have gs: "getDay start \<in> {0, 1, 2, 3, 4, 5, 6}" using g by auto
  have ws: "w \<in> {0, 1, 2, 3, 4, 5, 6}" using assms by auto
  have eq: "\<And>j. (of_int (getDay (addDays start j)) = (of_int w :: real))
                = ((getDay start + j) mod 7 = w)"
    by (simp add: getDay_addDays)
  show ?thesis
    unfolding findInjectionDate_def weekDates_def
    apply (simp only: list.map find.simps eq)
    using gs ws by (elim insertE emptyE; simp)
qed

section \<open>The text of a date key\<close>

text \<open>
  Splitting a number into a quotient and a remainder keeps the order of the pairs, also
  when the quotient is capped.
\<close>

lemma split_min:
  fixes x y c M :: int
  assumes "0 < c" "x < y"
  shows "min M (x div c) < min M (y div c)
       \<or> (min M (x div c) = min M (y div c)
           \<and> x - c * min M (x div c) < y - c * min M (y div c))"
proof -
  have "x div c \<le> y div c" using assms by (simp add: zdiv_mono1)
  then have "min M (x div c) \<le> min M (y div c)" by simp
  then show ?thesis using assms(2) by (cases "min M (x div c) = min M (y div c)") auto
qed

lemma split_div:
  fixes x y c :: int
  assumes "0 < c" "x < y"
  shows "x div c < y div c \<or> (x div c = y div c \<and> x mod c < y mod c)"
proof -
  have le: "x div c \<le> y div c" using assms by (simp add: zdiv_mono1)
  have "x mod c < y mod c" if "x div c = y div c"
  proof -
    have "x = c * (x div c) + x mod c" "y = c * (y div c) + y mod c" by simp_all
    with that assms(2) show ?thesis by (metis add_less_cancel_left)
  qed
  with le show ?thesis by (cases "x div c = y div c") auto
qed

text \<open>
  The calendar fields grow with the day: a later day has a later year, or the same year
  and a later month, or the same month and a later day of the month. The month is
  between 1 and 12 and the day of the month between 1 and 31.
\<close>

lemma yd_bounds:
  fixes d :: int
  assumes d: "0 \<le> d" "d \<le> 146096"
  defines "c \<equiv> min 3 (d div 36524)"
  defines "r \<equiv> d - 36524 * c"
  defines "q \<equiv> r div 1461"
  defines "s \<equiv> r mod 1461"
  defines "y \<equiv> min 3 (s div 365)"
  defines "t \<equiv> s - 365 * y"
  shows "0 \<le> c \<and> c \<le> 3 \<and> 0 \<le> q \<and> q \<le> 24 \<and> 0 \<le> y \<and> y \<le> 3 \<and> 0 \<le> t \<and> t \<le> 365"
proof -
  have c: "0 \<le> c" "c \<le> 3" using d unfolding c_def by (simp_all add: pos_imp_zdiv_nonneg_iff)
  have dd: "d = 36524 * (d div 36524) + d mod 36524" "0 \<le> d mod 36524" "d mod 36524 < 36524"
    by simp_all
  have r0: "0 \<le> r" using dd unfolding r_def c_def by linarith
  have r1: "r \<le> 36524" using dd d unfolding r_def c_def by linarith
  have rr: "r = 1461 * q + s" "0 \<le> s" "s < 1461" unfolding q_def s_def by simp_all
  have q: "0 \<le> q" "q \<le> 24" using rr r0 r1 by linarith+
  have ss: "s = 365 * (s div 365) + s mod 365" "0 \<le> s mod 365" "s mod 365 < 365"
    by simp_all
  have y: "0 \<le> y" "y \<le> 3" using ss rr unfolding y_def by linarith+
  have t: "0 \<le> t" "t \<le> 365" using ss rr unfolding t_def y_def by linarith+
  show ?thesis using c q y t by simp
qed


lemma yearOfEra_bounds:
  assumes "0 \<le> d" "d \<le> 146096"
  shows "0 \<le> fst (yearOfEra d) \<and> fst (yearOfEra d) \<le> 399
       \<and> 0 \<le> snd (yearOfEra d) \<and> snd (yearOfEra d) \<le> 365"
proof -
  define c r q s y t where "c = min 3 (d div 36524)" and "r = d - 36524 * c"
    and "q = r div 1461" and "s = r mod 1461" and "y = min 3 (s div 365)" and "t = s - 365 * y"
  have b: "0 \<le> c \<and> c \<le> 3 \<and> 0 \<le> q \<and> q \<le> 24 \<and> 0 \<le> y \<and> y \<le> 3 \<and> 0 \<le> t \<and> t \<le> 365"
    unfolding c_def r_def q_def s_def y_def t_def by (rule yd_bounds[OF assms])
  have f: "yearOfEra d = (100 * c + 4 * q + y, t)"
    unfolding yearOfEra_def Let_def c_def r_def q_def s_def y_def t_def by (rule refl)
  show ?thesis unfolding f fst_conv snd_conv using b by linarith
qed

lemma yearOfEra_mono:
  assumes "0 \<le> d" "d < e" "e \<le> 146096"
  shows "fst (yearOfEra d) < fst (yearOfEra e)
       \<or> (fst (yearOfEra d) = fst (yearOfEra e) \<and> snd (yearOfEra d) < snd (yearOfEra e))"
proof -
  define c r q s y t where "c = min 3 (d div 36524)" and "r = d - 36524 * c"
    and "q = r div 1461" and "s = r mod 1461" and "y = min 3 (s div 365)" and "t = s - 365 * y"
  define c' r' q' s' y' t' where "c' = min 3 (e div 36524)" and "r' = e - 36524 * c'"
    and "q' = r' div 1461" and "s' = r' mod 1461" and "y' = min 3 (s' div 365)"
    and "t' = s' - 365 * y'"
  have d: "0 \<le> d" "d \<le> 146096" and e: "0 \<le> e" "e \<le> 146096" using assms by linarith+
  have b: "0 \<le> c \<and> c \<le> 3 \<and> 0 \<le> q \<and> q \<le> 24 \<and> 0 \<le> y \<and> y \<le> 3 \<and> 0 \<le> t \<and> t \<le> 365"
    unfolding c_def r_def q_def s_def y_def t_def by (rule yd_bounds[OF d])
  have b': "0 \<le> c' \<and> c' \<le> 3 \<and> 0 \<le> q' \<and> q' \<le> 24 \<and> 0 \<le> y' \<and> y' \<le> 3 \<and> 0 \<le> t' \<and> t' \<le> 365"
    unfolding c'_def r'_def q'_def s'_def y'_def t'_def by (rule yd_bounds[OF e])
  have s1: "c < c' \<or> (c = c' \<and> r < r')"
    unfolding c_def c'_def r_def r'_def by (rule split_min) (use assms in simp_all)
  have s2: "q < q' \<or> (q = q' \<and> s < s')" if "r < r'"
    unfolding q_def q'_def s_def s'_def by (rule split_div) (use that in simp_all)
  have s3: "y < y' \<or> (y = y' \<and> t < t')" if "s < s'"
    unfolding y_def y'_def t_def t'_def by (rule split_min) (use that in simp_all)
  have f: "yearOfEra d = (100 * c + 4 * q + y, t)" "yearOfEra e = (100 * c' + 4 * q' + y', t')"
    unfolding yearOfEra_def Let_def c_def r_def q_def s_def y_def t_def
      c'_def r'_def q'_def s'_def y'_def t'_def by (rule refl)+
  from s1 consider "c < c'" | "c = c'" "q < q'" | "c = c'" "q = q'" "y < y'"
    | "c = c'" "q = q'" "y = y'" "t < t'"
    using s2 s3 by blast
  then show ?thesis unfolding f fst_conv snd_conv
  proof cases
    case 1 then show "100 * c + 4 * q + y < 100 * c' + 4 * q' + y'
       \<or> (100 * c + 4 * q + y = 100 * c' + 4 * q' + y' \<and> t < t')" using b b' by linarith
  next
    case 2 then show "100 * c + 4 * q + y < 100 * c' + 4 * q' + y'
       \<or> (100 * c + 4 * q + y = 100 * c' + 4 * q' + y' \<and> t < t')" using b b' by linarith
  next
    case 3 then show "100 * c + 4 * q + y < 100 * c' + 4 * q' + y'
       \<or> (100 * c + 4 * q + y = 100 * c' + 4 * q' + y' \<and> t < t')" by linarith
  next
    case 4 then show "100 * c + 4 * q + y < 100 * c' + 4 * q' + y'
       \<or> (100 * c + 4 * q + y = 100 * c' + 4 * q' + y' \<and> t < t')" by simp
  qed
qed

lemma yearDay_bounds: "0 \<le> snd (yearDay k) \<and> snd (yearDay k) \<le> 365"
proof -
  have "0 \<le> (k + 719468) mod 146097" "(k + 719468) mod 146097 \<le> 146096"
    using pos_mod_bound[of 146097 "k + 719468"] by simp_all
  from yearOfEra_bounds[OF this] show ?thesis
    unfolding yearDay_def Let_def by (simp add: split_beta)
qed

lemma yearDay_mono:
  assumes "a < b"
  shows "fst (yearDay a) < fst (yearDay b)
       \<or> (fst (yearDay a) = fst (yearDay b) \<and> snd (yearDay a) < snd (yearDay b))"
proof -
  let ?za = "a + 719468" and ?zb = "b + 719468"
  have ra: "0 \<le> ?za mod 146097" "?za mod 146097 \<le> 146096"
    using pos_mod_bound[of 146097 ?za] by simp_all
  have rb: "0 \<le> ?zb mod 146097" "?zb mod 146097 \<le> 146096"
    using pos_mod_bound[of 146097 ?zb] by simp_all
  note ba = yearOfEra_bounds[OF ra] and bb = yearOfEra_bounds[OF rb]
  have f: "yearDay a = (400 * (?za div 146097) + fst (yearOfEra (?za mod 146097)),
                         snd (yearOfEra (?za mod 146097)))"
          "yearDay b = (400 * (?zb div 146097) + fst (yearOfEra (?zb mod 146097)),
                         snd (yearOfEra (?zb mod 146097)))"
    unfolding yearDay_def Let_def by (simp_all add: split_beta)
  from split_div[of 146097 ?za ?zb] assms
  consider "?za div 146097 < ?zb div 146097"
    | "?za div 146097 = ?zb div 146097" "?za mod 146097 < ?zb mod 146097" by auto
  then show ?thesis
  proof cases
    case 1
    then show ?thesis unfolding f using ba bb by simp
  next
    case 2
    from yearOfEra_mono[OF ra(1) 2(2) rb(2)] 2(1) show ?thesis unfolding f by auto
  qed
qed

lemma monthDay_bounds:
  fixes t :: int
  assumes "0 \<le> t" "t \<le> 365"
  defines "mp \<equiv> (5 * t + 2) div 153"
  defines "d \<equiv> t - (153 * mp + 2) div 5 + 1"
  shows "0 \<le> mp \<and> mp \<le> 11 \<and> 1 \<le> d \<and> d \<le> 31"
proof -
  have m: "5 * t + 2 = 153 * mp + (5 * t + 2) mod 153" "0 \<le> (5 * t + 2) mod 153"
     "(5 * t + 2) mod 153 < 153" unfolding mp_def by simp_all
  have e: "153 * mp + 2 = 5 * ((153 * mp + 2) div 5) + (153 * mp + 2) mod 5"
     "0 \<le> (153 * mp + 2) mod 5" "(153 * mp + 2) mod 5 < 5" by simp_all
  have mp: "0 \<le> mp" "mp \<le> 11" using m assms(1,2) by linarith+
  have d: "1 \<le> d" "d \<le> 31" using m e unfolding d_def by linarith+
  show ?thesis using mp d by simp
qed

lemma monthDay_mono:
  fixes t t' :: int
  assumes "t < t'"
  defines "mp \<equiv> (5 * t + 2) div 153" and "mp' \<equiv> (5 * t' + 2) div 153"
  shows "mp < mp' \<or> (mp = mp' \<and> t - (153 * mp + 2) div 5 + 1 < t' - (153 * mp' + 2) div 5 + 1)"
proof -
  have "mp \<le> mp'" unfolding mp_def mp'_def using assms(1) by (intro zdiv_mono1) simp_all
  then show ?thesis using assms(1) by (cases "mp = mp'") auto
qed

lemma civilOfDay_eq:
  "civilOfDay k =
     (if (5 * snd (yearDay k) + 2) div 153 < 10
      then (fst (yearDay k), (5 * snd (yearDay k) + 2) div 153 + 3,
            snd (yearDay k) - (153 * ((5 * snd (yearDay k) + 2) div 153) + 2) div 5 + 1)
      else (fst (yearDay k) + 1, (5 * snd (yearDay k) + 2) div 153 - 9,
            snd (yearDay k) - (153 * ((5 * snd (yearDay k) + 2) div 153) + 2) div 5 + 1))"
  unfolding civilOfDay_def Let_def split_beta by (rule refl)

lemma civilOfDay_bounds:
  "1 \<le> fst (snd (civilOfDay k)) \<and> fst (snd (civilOfDay k)) \<le> 12
   \<and> 1 \<le> snd (snd (civilOfDay k)) \<and> snd (snd (civilOfDay k)) \<le> 31"
proof -
  define t where "t = snd (yearDay k)"
  define mp where "mp = (5 * t + 2) div 153"
  define d where "d = t - (153 * mp + 2) div 5 + 1"
  have t: "0 \<le> t" "t \<le> 365" using yearDay_bounds[of k] unfolding t_def by simp_all
  have b: "0 \<le> mp \<and> mp \<le> 11 \<and> 1 \<le> d \<and> d \<le> 31"
    unfolding mp_def d_def by (rule monthDay_bounds[OF t])
  have f: "civilOfDay k = (if mp < 10 then (fst (yearDay k), mp + 3, d)
                           else (fst (yearDay k) + 1, mp - 9, d))"
    unfolding civilOfDay_eq mp_def d_def t_def by (rule refl)
  show ?thesis unfolding f using b by (cases "mp < 10") simp_all
qed

lemma civilOfDay_mono:
  assumes "a < b"
  shows "civilLess (civilOfDay a) (civilOfDay b)"
proof -
  define t where "t = snd (yearDay a)"
  define mp where "mp = (5 * t + 2) div 153"
  define d where "d = t - (153 * mp + 2) div 5 + 1"
  define t' where "t' = snd (yearDay b)"
  define mp' where "mp' = (5 * t' + 2) div 153"
  define d' where "d' = t' - (153 * mp' + 2) div 5 + 1"
  define y y' where "y = fst (yearDay a)" and "y' = fst (yearDay b)"
  have t: "0 \<le> t" "t \<le> 365" using yearDay_bounds[of a] unfolding t_def by simp_all
  have t': "0 \<le> t'" "t' \<le> 365" using yearDay_bounds[of b] unfolding t'_def by simp_all
  have m: "0 \<le> mp \<and> mp \<le> 11 \<and> 1 \<le> d \<and> d \<le> 31"
    unfolding mp_def d_def by (rule monthDay_bounds[OF t])
  have m': "0 \<le> mp' \<and> mp' \<le> 11 \<and> 1 \<le> d' \<and> d' \<le> 31"
    unfolding mp'_def d'_def by (rule monthDay_bounds[OF t'])
  have fa: "civilOfDay a = (if mp < 10 then (y, mp + 3, d) else (y + 1, mp - 9, d))"
    unfolding civilOfDay_eq mp_def d_def t_def y_def by (rule refl)
  have fb: "civilOfDay b = (if mp' < 10 then (y', mp' + 3, d') else (y' + 1, mp' - 9, d'))"
    unfolding civilOfDay_eq mp'_def d'_def t'_def y'_def by (rule refl)
  have s: "mp < mp' \<or> (mp = mp' \<and> d < d')" if "t < t'"
    unfolding mp_def mp'_def d_def d'_def by (rule monthDay_mono[OF that])
  from yearDay_mono[OF assms]
  consider "y < y'" | "y = y'" "mp < mp'" | "y = y'" "mp = mp'" "d < d'"
    unfolding y_def y'_def using s unfolding t_def t'_def by blast
  then show ?thesis
  proof cases
    case 1
    then show ?thesis unfolding fa fb civilLess_def using m m' by (auto split: if_splits)
  next
    case 2
    then show ?thesis unfolding fa fb civilLess_def using m m' by (auto split: if_splits)
  next
    case 3
    then show ?thesis unfolding fa fb civilLess_def by (auto split: if_splits)
  qed
qed

lemma civilLess_irrefl: "\<not> civilLess p p"
  by (cases p) (simp add: civilLess_def)

lemma civilLess_asym: "civilLess p q \<Longrightarrow> \<not> civilLess q p"
  by (cases p; cases q) (auto simp: civilLess_def)

lemma civilLess_iff: "civilLess (civilOfDay a) (civilOfDay b) \<longleftrightarrow> a < b"
proof
  assume l: "civilLess (civilOfDay a) (civilOfDay b)"
  show "a < b"
  proof (rule ccontr)
    assume "\<not> a < b"
    then consider "a = b" | "b < a" by linarith
    then show False
    proof cases
      case 1 with l show False by (simp add: civilLess_irrefl)
    next
      case 2 from civilOfDay_mono[OF this] l show False by (blast dest: civilLess_asym)
    qed
  qed
qed (rule civilOfDay_mono)


text \<open>
  Strings of the same number of digits are ordered as the numbers they print, so the
  order of two keys with four-digit years is the order of their calendar fields.
\<close>

lemma digitChar_code: "n < 10 \<Longrightarrow> (of_char (digitChar n) :: nat) = 48 + n"
proof -
  assume n: "n < 10"
  have u: "[0..<10] = [0, 1, 2, 3, 4, 5, 6, 7, 8, 9 :: nat]" by code_simp
  have "\<forall>k \<in> set [0..<10]. (of_char (digitChar k) :: nat) = 48 + k"
    unfolding u by (simp add: digitChar_def)
  with n show ?thesis by simp
qed

lemma digitChar_less:
  "a < 10 \<Longrightarrow> b < 10 \<Longrightarrow> ((of_char (digitChar a) :: nat) < of_char (digitChar b)) = (a < b)"
  by (simp add: digitChar_code)

lemma digitChar_eq: "a < 10 \<Longrightarrow> b < 10 \<Longrightarrow> (digitChar a = digitChar b) = (a = b)"
proof
  assume a: "a < 10" "b < 10" and e: "digitChar a = digitChar b"
  have "(of_char (digitChar a) :: nat) = of_char (digitChar b)" by (simp only: e)
  then show "a = b" unfolding digitChar_code[OF a(1)] digitChar_code[OF a(2)] by linarith
qed (rule arg_cong)

lemma lex10:
  fixes q r p s :: nat
  assumes "r < 10" "s < 10"
  shows "(10 * q + r < 10 * p + s) = (q < p \<or> (q = p \<and> r < s))"
    and "(10 * q + r = 10 * p + s) = (q = p \<and> r = s)"
proof -
  show "(10 * q + r < 10 * p + s) = (q < p \<or> (q = p \<and> r < s))" using assms by linarith
  have "q = p \<and> r = s" if e: "10 * q + r = 10 * p + s"
  proof -
    have "\<not> q < p" "\<not> p < q" using assms e by linarith+
    then have "q = p" by simp
    with e show ?thesis by simp
  qed
  then show "(10 * q + r = 10 * p + s) = (q = p \<and> r = s)" by blast
qed

lemma div10_less:
  fixes n :: nat
  assumes "n < 10 ^ Suc w"
  shows "n div 10 < 10 ^ w"
proof -
  have "n < 10 ^ w * 10" using assms by (simp only: power_Suc mult.commute)
  then show ?thesis by (rule less_mult_imp_div_less)
qed

lemma strLess_fixedDigits:
  "n < 10 ^ w \<Longrightarrow> m < 10 ^ w \<Longrightarrow>
   strLess (fixedDigits w n @ u) (fixedDigits w m @ v) = (n < m \<or> (n = m \<and> strLess u v))"
proof (induction w arbitrary: n m u v)
  case 0
  then show ?case by simp
next
  case (Suc w)
  have n: "n div 10 < 10 ^ w" by (rule div10_less[OF Suc.prems(1)])
  have m: "m div 10 < 10 ^ w" by (rule div10_less[OF Suc.prems(2)])
  have l: "(n < m) = (n div 10 < m div 10 \<or> (n div 10 = m div 10 \<and> n mod 10 < m mod 10))"
    using lex10(1)[of "n mod 10" "m mod 10" "n div 10" "m div 10"]
    by (simp only: mult_div_mod_eq)
  have e: "(n = m) = (n div 10 = m div 10 \<and> n mod 10 = m mod 10)"
    using lex10(2)[of "n mod 10" "m mod 10" "n div 10" "m div 10"]
    by (simp only: mult_div_mod_eq)
  have "strLess (fixedDigits (Suc w) n @ u) (fixedDigits (Suc w) m @ v)
      = strLess (fixedDigits w (n div 10) @ (digitChar (n mod 10) # u))
                (fixedDigits w (m div 10) @ (digitChar (m mod 10) # v))" by simp
  also have "\<dots> = (n div 10 < m div 10 \<or> (n div 10 = m div 10
         \<and> strLess (digitChar (n mod 10) # u) (digitChar (m mod 10) # v)))"
    by (rule Suc.IH[OF n m])
  also have "strLess (digitChar (n mod 10) # u) (digitChar (m mod 10) # v)
      = (n mod 10 < m mod 10 \<or> (n mod 10 = m mod 10 \<and> strLess u v))"
    by (simp add: digitChar_less digitChar_eq)
  finally show ?case using l e by blast
qed

lemma digits_lt10: "n < 10 \<Longrightarrow> digits n = [digitChar n]"
  by (subst digits.simps) simp

lemma digits_ge10: "10 \<le> n \<Longrightarrow> digits n = digits (n div 10) @ [digitChar (n mod 10)]"
  by (subst digits.simps) simp

lemma fixedDigits_2:
  "fixedDigits 2 n = [digitChar (n div 10 mod 10), digitChar (n mod 10)]"
proof -
  have "(2::nat) = Suc (Suc 0)" by simp
  then show ?thesis by (simp only: fixedDigits.simps append_Nil append_Cons)
qed

lemma fixedDigits_4:
  "fixedDigits 4 n = [digitChar (n div 10 div 10 div 10 mod 10),
          digitChar (n div 10 div 10 mod 10), digitChar (n div 10 mod 10), digitChar (n mod 10)]"
proof -
  have "(4::nat) = Suc (Suc (Suc (Suc 0)))" by simp
  then show ?thesis by (simp only: fixedDigits.simps append_Nil append_Cons)
qed

lemma digits_4:
  fixes n :: nat
  assumes "1000 \<le> n" "n \<le> 9999"
  shows "digits n = fixedDigits 4 n"
proof -
  have a: "10 \<le> n" "10 \<le> n div 10" "10 \<le> n div 10 div 10" "n div 10 div 10 div 10 < 10"
    using assms by linarith+
  have m: "n div 10 div 10 div 10 mod 10 = n div 10 div 10 div 10"
    using a(4) by (rule mod_less)
  show ?thesis
    unfolding fixedDigits_4 m digits_ge10[OF a(1)] digits_ge10[OF a(2)] digits_ge10[OF a(3)]
      digits_lt10[OF a(4)] by (simp only: append_Nil append_Cons)
qed

lemma showInt_4: "1000 \<le> y \<Longrightarrow> y \<le> 9999 \<Longrightarrow> showInt y = fixedDigits 4 (nat y)"
  unfolding showInt_def by (simp add: digits_4)

lemma pad2_fixed:
  assumes "0 \<le> m" "m \<le> 99"
  shows "pad2 m = fixedDigits 2 (nat m)"
proof (cases "m < 10")
  case True
  then have l: "nat m < 10" by simp
  have s: "showInt m = [digitChar (nat m)]"
    using assms(1) by (simp add: showInt_def digits_lt10[OF l])
  have z: "digitChar 0 = CHR ''0''" by (simp add: digitChar_def)
  have f: "fixedDigits 2 (nat m) = [digitChar 0, digitChar (nat m)]"
    unfolding fixedDigits_2 using l by simp
  show ?thesis unfolding pad2_def s f Let_def z by simp
next
  case False
  then have a: "10 \<le> nat m" "nat m div 10 < 10" using assms by linarith+
  have s: "showInt m = [digitChar (nat m div 10), digitChar (nat m mod 10)]"
    using assms(1) by (simp add: showInt_def digits_ge10[OF a(1)] digits_lt10[OF a(2)])
  have f: "fixedDigits 2 (nat m) = [digitChar (nat m div 10), digitChar (nat m mod 10)]"
    unfolding fixedDigits_2 using a(2) by simp
  show ?thesis unfolding pad2_def s f Let_def by simp
qed

lemma civil_min: "civilOfDay minKey4 = (1000, 1, 1)"
  by code_simp

lemma civil_max: "civilOfDay maxKey4 = (9999, 12, 31)"
  by code_simp

lemma year_range:
  assumes "minKey4 \<le> k" "k \<le> maxKey4"
  shows "1000 \<le> fst (civilOfDay k) \<and> fst (civilOfDay k) \<le> 9999"
proof -
  obtain y m d where c: "civilOfDay k = (y, m, d)" by (cases "civilOfDay k")
  have lo: "1000 \<le> y"
  proof (cases "minKey4 = k")
    case True then show ?thesis using c civil_min by simp
  next
    case False
    then have "minKey4 < k" using assms by simp
    from civilOfDay_mono[OF this] show ?thesis unfolding c civil_min civilLess_def by auto
  qed
  have hi: "y \<le> 9999"
  proof (cases "k = maxKey4")
    case True then show ?thesis using c civil_max by simp
  next
    case False
    then have "k < maxKey4" using assms by simp
    from civilOfDay_mono[OF this] show ?thesis unfolding c civil_max civilLess_def by auto
  qed
  show ?thesis using lo hi c by simp
qed

lemma keyText_fixed:
  assumes "minKey4 \<le> k" "k \<le> maxKey4" and c: "civilOfDay k = (y, m, d)"
  shows "keyText k = fixedDigits 4 (nat y) @ CHR ''-'' # fixedDigits 2 (nat m)
                       @ CHR ''-'' # fixedDigits 2 (nat d) @ []"
proof -
  have y: "1000 \<le> y" "y \<le> 9999" using year_range[OF assms(1,2)] c by simp_all
  have md: "0 \<le> m" "m \<le> 99" "0 \<le> d" "d \<le> 99" using civilOfDay_bounds[of k] c by simp_all
  show ?thesis
    unfolding keyText_def c Let_def prod.case showInt_4[OF y] pad2_fixed[OF md(1,2)]
      pad2_fixed[OF md(3,4)] by simp
qed

lemma keyText_less:
  assumes a: "minKey4 \<le> a" "a \<le> maxKey4" and b: "minKey4 \<le> b" "b \<le> maxKey4"
  shows "strLess (keyText a) (keyText b) = (a < b)"
proof -
  obtain y m d where ca: "civilOfDay a = (y, m, d)" by (cases "civilOfDay a")
  obtain y' m' d' where cb: "civilOfDay b = (y', m', d')" by (cases "civilOfDay b")
  have ya: "1000 \<le> y" "y \<le> 9999" using year_range[OF a] ca by simp_all
  have yb: "1000 \<le> y'" "y' \<le> 9999" using year_range[OF b] cb by simp_all
  have ra: "1 \<le> m" "m \<le> 12" "1 \<le> d" "d \<le> 31" using civilOfDay_bounds[of a] ca by simp_all
  have rb: "1 \<le> m'" "m' \<le> 12" "1 \<le> d'" "d' \<le> 31" using civilOfDay_bounds[of b] cb by simp_all
  have p: "nat y < 10 ^ 4" "nat y' < 10 ^ 4" "nat m < 10 ^ 2" "nat m' < 10 ^ 2"
     "nat d < 10 ^ 2" "nat d' < 10 ^ 2"
    using ya yb ra rb by simp_all
  have "strLess (keyText a) (keyText b)
      = (nat y < nat y' \<or> (nat y = nat y' \<and> (nat m < nat m' \<or> (nat m = nat m'
           \<and> nat d < nat d'))))"
    unfolding keyText_fixed[OF a ca] keyText_fixed[OF b cb]
      strLess_fixedDigits[OF p(1,2)] strLess.simps strLess_fixedDigits[OF p(3,4)]
      strLess_fixedDigits[OF p(5,6)] by simp
  also have "\<dots> = civilLess (civilOfDay a) (civilOfDay b)"
    unfolding ca cb civilLess_def using ya yb ra rb by auto
  also have "\<dots> = (a < b)" by (rule civilLess_iff)
  finally show ?thesis .
qed

lemma civilOfDay_examples:
  "civilOfDay 0 = (1970, 1, 1)"
  "civilOfDay (- 1) = (1969, 12, 31)"
  "civilOfDay 11016 = (2000, 2, 29)"
  "civilOfDay (- 25508) = (1900, 3, 1)"
  "civilOfDay 20582 = (2026, 5, 9)"
  "civilOfDay 2932897 = (10000, 1, 1)"
  by code_simp+

lemmas keyText_eval = keyText_def showInt_def pad2_def digits_ge10 digits_lt10 digitChar_def
  Let_def

text \<open>
  Comparing two keys gives 0 exactly for the same day, and between 1 January 1000 and
  31 December 9999 the order of the strings is the order of the days.
\<close>

lemma compareDateKeys_zero: "(compareDateKeys a b = 0) = (a = b)"
  by (simp add: compareDateKeys_def)

lemma compareDateKeys_days:
  assumes "minKey4 \<le> a" "a \<le> maxKey4" "minKey4 \<le> b" "b \<le> maxKey4"
  shows "compareDateKeys a b = (if a = b then 0 else if a < b then - 1 else 1)"
  unfolding compareDateKeys_def keyText_less[OF assms] by (rule refl)

lemmas compareDateKeys_eval = compareDateKeys_days minKey4_def maxKey4_def

section \<open>Percentages and the injection weekday\<close>

lemma pct_bounds:
  assumes "d \<le> e" "e \<noteq> (0::nat)"
  shows "0 \<le> jsRound (real d / real e * 100) \<and> jsRound (real d / real e * 100) \<le> 100"
proof -
  have e: "0 < real e" using assms by simp
  have "0 \<le> real d / real e" by simp
  moreover have "real d / real e \<le> 1" using assms e by (simp add: divide_le_eq)
  ultimately show ?thesis unfolding jsRound_def by (simp add: le_floor_iff floor_le_iff)
qed

lemma pct_100_iff:
  assumes "d \<le> e" "0 < e" "e < (200::nat)"
  shows "(jsRound (real d / real e * 100) = 100) = (d = e)"
proof
  assume "d = e" then show "jsRound (real d / real e * 100) = 100"
    using assms unfolding jsRound_def by simp
next
  assume h: "jsRound (real d / real e * 100) = 100"
  show "d = e"
  proof (rule ccontr)
    assume "d \<noteq> e"
    then have "d + 1 \<le> e" using assms by simp
    then have "real d \<le> real e - 1" by linarith
    then have "real d * 200 \<le> real e * 200 - 200" by simp
    also have "\<dots> < real e * 199" using assms by simp
    finally have "real d * 200 < 199 * real e" by (simp add: mult.commute)
    then have "real d / real e * 100 < 199 / 2" using assms by (simp add: divide_less_eq)
    then have "real d / real e * 100 + 1 / 2 < 100" by simp
    then have "jsRound (real d / real e * 100) < 100" unfolding jsRound_def
      by (simp add: floor_less_iff)
    with h show False by simp
  qed
qed

lemma length_filter_eq_iff: "(length (filter P xs) = length xs) = (\<forall>x \<in> set xs. P x)"
proof (induction xs)
  case Nil then show ?case by simp
next
  case (Cons x xs)
  have "length (filter P xs) \<noteq> Suc (length xs)"
    using length_filter_le[of P xs] by linarith
  with Cons show ?case by auto
qed

lemma length_expectedWeighKeys: "length (expectedWeighKeys s start) \<le> 7"
proof -
  have "length (expectedWeighKeys s start) \<le> length (weekDates start)"
    unfolding expectedWeighKeys_def by simp
  then show ?thesis by (simp add: weekDates_def)
qed

lemma findInjectionDate_nonint:
  "x \<notin> \<int> \<Longrightarrow> findInjectionDate x start = None"
  unfolding findInjectionDate_def find_None_iff by auto

lemma injDowOf_range: "0 \<le> injDowOf s \<and> injDowOf s \<le> 6"
  unfolding injDowOf_def clampNumber_def by (simp split: jsnum.splits)

lemma injDowOf_int_cases:
  assumes "injDowOf s \<in> \<int>"
  obtains w where "injDowOf s = of_int w" "0 \<le> w" "w \<le> 6"
proof -
  from assms obtain w where w: "injDowOf s = of_int w" by (auto elim: Ints_cases)
  with injDowOf_range[of s] have "0 \<le> w \<and> w \<le> 6" by simp
  with w that show ?thesis by blast
qed

lemma weekInjKey_int:
  assumes "injDowOf s \<in> \<int>"
  shows "\<exists>d. findInjectionDate (injDowOf s) start = Some d
           \<and> weekInjKey s start = Some (getLocalDateKey d)
           \<and> of_int (getDay d) = injDowOf s
           \<and> d \<in> set (weekDates start)"
proof -
  from assms obtain w where w: "injDowOf s = of_int w" "0 \<le> w" "w \<le> 6"
    by (rule injDowOf_int_cases)
  have f: "findInjectionDate (injDowOf s) start = Some (addDays start ((w - getDay start) mod 7))"
    using findInjectionDate_int[OF w(2,3)] w(1) by simp
  then have "of_int (getDay (addDays start ((w - getDay start) mod 7))) = injDowOf s
     \<and> addDays start ((w - getDay start) mod 7) \<in> set (weekDates start)"
    unfolding findInjectionDate_def by (auto simp: find_Some_iff)
  with f show ?thesis by (simp add: weekInjKey_def)
qed

section \<open>Weight deltas against the closest earlier sample\<close>

lemma find_sorted_desc:
  "sorted_wrt (\<lambda>a b. dateTimeISO b \<le> dateTimeISO a) ws \<Longrightarrow>
   (case find (\<lambda>w. dateTimeISO w \<le> target) ws of
      None \<Rightarrow> \<forall>w \<in> set ws. \<not> dateTimeISO w \<le> target
    | Some c \<Rightarrow> isClosestAtOrBefore ws target c)"
  by (induction ws) (auto simp: isClosestAtOrBefore_def split: option.splits)

lemma delta_of_pick:
  assumes "sorted_wrt (\<lambda>a b. dateTimeISO b \<le> dateTimeISO a) (l # rest)"
  shows "deltaSpec (l # rest) h
     (case pickWeightClosestAtOrBefore (l # rest) (addDays (dateTimeISO l) (- h)) of
        None \<Rightarrow> None | Some x \<Rightarrow> Some (weightKg l - weightKg x))"
  using find_sorted_desc[OF assms, of "dateTimeISO l - h * msPerDay"]
  unfolding deltaSpec_def pickWeightClosestAtOrBefore_def addDays_def
  by (auto simp: Let_def isClosestAtOrBefore_def split: option.splits)

text \<open>
  C2. For a non-empty list of weight records sorted descending by timestamp, each of
  \<open>d7\<close>, \<open>d14\<close> and \<open>d30\<close> is the weight of the last (first listed) record minus the
  weight of a record with the greatest timestamp at or before 7, 14 and 30 days earlier,
  and null when no record is that old. For samples at days 0, -5, -9 and -20 relative to
  the last one, \<open>d7\<close> is taken against the sample of day -9, not that of day -5.
\<close>

theorem computeWeightDeltas_closest_prior:
  "(ws \<noteq> [] \<and> sorted_wrt (\<lambda>a b. dateTimeISO b \<le> dateTimeISO a) ws \<longrightarrow>
      lastRec (computeWeightDeltas ws) = Some (hd ws)
      \<and> deltaSpec ws 7 (d7 (computeWeightDeltas ws))
      \<and> deltaSpec ws 14 (d14 (computeWeightDeltas ws))
      \<and> deltaSpec ws 30 (d30 (computeWeightDeltas ws)))
   \<and> d7 (computeWeightDeltas
        [\<lparr> dateTimeISO = T, weightKg = k0 \<rparr>,
         \<lparr> dateTimeISO = addDays T (- 5), weightKg = k5 \<rparr>,
         \<lparr> dateTimeISO = addDays T (- 9), weightKg = k9 \<rparr>,
         \<lparr> dateTimeISO = addDays T (- 20), weightKg = k20 \<rparr>]) = Some (k0 - k9)"
proof (intro conjI impI)
  assume a: "ws \<noteq> [] \<and> sorted_wrt (\<lambda>a b. dateTimeISO b \<le> dateTimeISO a) ws"
  then obtain l rest where ws: "ws = l # rest" by (cases ws) auto
  have srt: "sorted_wrt (\<lambda>a b. dateTimeISO b \<le> dateTimeISO a) (l # rest)"
    using a ws by simp
  show "lastRec (computeWeightDeltas ws) = Some (hd ws)"
    by (simp add: ws computeWeightDeltas_def Let_def)
  show "deltaSpec ws 7 (d7 (computeWeightDeltas ws))"
    using delta_of_pick[OF srt, of 7] by (simp add: ws computeWeightDeltas_def Let_def)
  show "deltaSpec ws 14 (d14 (computeWeightDeltas ws))"
    using delta_of_pick[OF srt, of 14] by (simp add: ws computeWeightDeltas_def Let_def)
  show "deltaSpec ws 30 (d30 (computeWeightDeltas ws))"
    using delta_of_pick[OF srt, of 30] by (simp add: ws computeWeightDeltas_def Let_def)
next
  show "d7 (computeWeightDeltas
        [\<lparr> dateTimeISO = T, weightKg = k0 \<rparr>,
         \<lparr> dateTimeISO = addDays T (- 5), weightKg = k5 \<rparr>,
         \<lparr> dateTimeISO = addDays T (- 9), weightKg = k9 \<rparr>,
         \<lparr> dateTimeISO = addDays T (- 20), weightKg = k20 \<rparr>]) = Some (k0 - k9)"
    by (simp add: computeWeightDeltas_def Let_def pickWeightClosestAtOrBefore_def
          addDays_def msPerDay_def)
qed

text \<open>
  The example of the specification: 80.0 kg on the last day, 79.0 kg seven days and
  78.5 kg fourteen days earlier give \<open>d7 = 1.0\<close>, \<open>d14 = 1.5\<close> and no \<open>d30\<close>.
\<close>

theorem computeWeightDeltas_closest_prior_witness:
  "(let ws = [\<lparr> dateTimeISO = 1778241600000, weightKg = 80 \<rparr>,
              \<lparr> dateTimeISO = 1777636800000, weightKg = 79 \<rparr>,
              \<lparr> dateTimeISO = 1777032000000, weightKg = 157 / 2 \<rparr>]
    in ws \<noteq> [] \<and> sorted_wrt (\<lambda>a b. dateTimeISO b \<le> dateTimeISO a) ws
       \<and> deltaSpec ws 7 (Some 1) \<and> deltaSpec ws 14 (Some (3 / 2)) \<and> deltaSpec ws 30 None
       \<and> d7 (computeWeightDeltas ws) = Some 1
       \<and> d14 (computeWeightDeltas ws) = Some (3 / 2)
       \<and> d30 (computeWeightDeltas ws) = None)"
  using computeWeightDeltas_closest_prior
    [of "[\<lparr> dateTimeISO = 1778241600000, weightKg = 80 \<rparr>,
          \<lparr> dateTimeISO = 1777636800000, weightKg = 79 \<rparr>,
          \<lparr> dateTimeISO = 1777032000000, weightKg = 157 / 2 \<rparr>]" 0 0 0 0 0]
  by (simp add: computeWeightDeltas_def Let_def pickWeightClosestAtOrBefore_def
        addDays_def msPerDay_def)

section \<open>The weigh-in streak\<close>

declare countStreakWeightsLoop.simps [simp del]

lemma daysBack_Suc:
  "map (\<lambda>i. today - int i) [0..<Suc n] = today # map (\<lambda>i. (today - 1) - int i) [0..<n]"
  by (induction n) auto

lemma scheduledKeysBack_Suc:
  "scheduledKeysBack dows k (Suc n) =
     (if hasDow dows (dowOfKey k) then [k] else []) @ scheduledKeysBack dows (k - 1) n"
  unfolding scheduledKeysBack_def daysBack_Suc by simp

lemma scheduledKeysBack_0: "scheduledKeysBack dows k 0 = []"
  by (simp add: scheduledKeysBack_def)

lemma countStreakWeightsLoop_char:
  "countStreakWeightsLoop dows keys m d streak checked =
     streak + length (takeWhile (\<lambda>k. k \<in> keys)
                        (scheduledKeysBack dows (getLocalDateKey d) (m - checked)))"
proof (induction dows keys m d streak checked rule: countStreakWeightsLoop.induct)
  case (1 dows keys m d streak checked)
  show ?case
  proof (cases "checked < m")
    case False
    then show ?thesis
      by (subst countStreakWeightsLoop.simps) (simp add: scheduledKeysBack_0)
  next
    case True
    then have m: "m - checked = Suc (m - (checked + 1))" by simp
    have dk: "getDay d = dowOfKey (getLocalDateKey d)" by (simp add: getDay_def dowOfKey_def)
    show ?thesis
    proof (cases "hasDow dows (getDay d)")
      case False
      with True "1.IH"(2) show ?thesis
        by (subst countStreakWeightsLoop.simps)
           (simp add: m scheduledKeysBack_Suc dk[symmetric] getLocalDateKey_addDays del: One_nat_def)
    next
      case sched: True
      show ?thesis
      proof (cases "getLocalDateKey d \<in> keys")
        case True
        with sched \<open>checked < m\<close> "1.IH"(1) show ?thesis
          by (subst countStreakWeightsLoop.simps)
             (simp add: m scheduledKeysBack_Suc dk[symmetric] getLocalDateKey_addDays)
      next
        case False
        with sched \<open>checked < m\<close> show ?thesis
          by (subst countStreakWeightsLoop.simps)
             (simp add: m scheduledKeysBack_Suc dk[symmetric])
      qed
    qed
  qed
qed

lemma countStreakWeights_char:
  "countStreakWeights c s nowDate n =
     length (takeWhile (\<lambda>k. k \<in> weightKeys c)
               (scheduledKeysBack (weighDowsOf s) (getLocalDateKey nowDate) n))"
  unfolding countStreakWeights_def countStreakWeightsLoop_char
  by (simp add: getLocalDateKey_startOfDay)

lemma scheduledKeysBack_bounds:
  "k \<in> set (scheduledKeysBack dows today n) \<Longrightarrow> today - int n < k \<and> k \<le> today"
  unfolding scheduledKeysBack_def by auto

lemma scheduledKeysBack_sorted:
  "sorted_wrt (\<lambda>a b. b < a) (scheduledKeysBack dows today n)"
proof (induction n arbitrary: today)
  case 0 then show ?case by (simp add: scheduledKeysBack_0)
next
  case (Suc n)
  have "\<forall>k \<in> set (scheduledKeysBack dows (today - 1) n). k < today"
    using scheduledKeysBack_bounds[of _ dows "today - 1" n] by auto
  with Suc[of "today - 1"] show ?case by (simp add: scheduledKeysBack_Suc)
qed

lemma takeWhile_insert_gap:
  assumes "dropWhile (\<lambda>k. k \<in> keys) L = m # rest" and "m \<notin> set rest"
  shows "length (takeWhile (\<lambda>k. k \<in> insert m keys) L)
       = length (takeWhile (\<lambda>k. k \<in> keys) L) + 1 + length (takeWhile (\<lambda>k. k \<in> keys) rest)"
proof -
  let ?P = "\<lambda>k. k \<in> keys" and ?Q = "\<lambda>k. k \<in> insert m keys"
  have L: "L = takeWhile ?P L @ m # rest" using assms(1) by (metis takeWhile_dropWhile_id)
  have pre: "\<forall>k \<in> set (takeWhile ?P L). ?Q k" by (auto dest: set_takeWhileD)
  have r: "takeWhile ?Q rest = takeWhile ?P rest"
    by (rule takeWhile_cong) (use assms(2) in auto)
  have "takeWhile ?Q L = takeWhile ?Q (takeWhile ?P L @ m # rest)" using L by simp
  also have "\<dots> = takeWhile ?P L @ takeWhile ?Q (m # rest)"
    using pre by simp
  also have "\<dots> = takeWhile ?P L @ m # takeWhile ?P rest" using r by simp
  finally show ?thesis by simp
qed


lemma scheduledKeysBack_distinct_tail:
  "scheduledKeysBack dows today n = pre @ m # rest \<Longrightarrow> m \<notin> set rest"
proof -
  assume a: "scheduledKeysBack dows today n = pre @ m # rest"
  have "sorted_wrt (\<lambda>a b. b < a) (pre @ m # rest)"
    using scheduledKeysBack_sorted[of dows today n] a by simp
  then show ?thesis by (auto simp: sorted_wrt_append)
qed

lemma weightKeys_add:
  "weightKeys (fst (buildChecklistCache (st\<lparr> STORE_WEIGHTS := w # STORE_WEIGHTS st \<rparr>)))
     = insert (getLocalDateKey (dateTimeISO w)) (weightKeys (fst (buildChecklistCache st)))"
  by (simp add: buildChecklistCache_def Let_def)

lemma weightKeys_remove:
  "weightKeys (fst (buildChecklistCache
      (st\<lparr> STORE_WEIGHTS := filter (\<lambda>x. getLocalDateKey (dateTimeISO x) \<noteq> m) (STORE_WEIGHTS st) \<rparr>)))
     = weightKeys (fst (buildChecklistCache st)) - {m}"
  by (auto simp add: buildChecklistCache_def Let_def)

lemma scheduledKeysBack_add:
  "scheduledKeysBack dows k (a + b)
     = scheduledKeysBack dows k a @ scheduledKeysBack dows (k - int a) b"
proof (induction a arbitrary: k)
  case 0 then show ?case by (simp add: scheduledKeysBack_0)
next
  case (Suc a)
  have "scheduledKeysBack dows k (Suc (a + b))
      = (if hasDow dows (dowOfKey k) then [k] else []) @ scheduledKeysBack dows (k - 1) (a + b)"
    by (rule scheduledKeysBack_Suc)
  also have "scheduledKeysBack dows (k - 1) (a + b)
      = scheduledKeysBack dows (k - 1) a @ scheduledKeysBack dows (k - 1 - int a) b"
    by (rule Suc.IH)
  finally show ?case by (simp add: scheduledKeysBack_Suc algebra_simps)
qed

text \<open>A scan that meets a missing scheduled day in its first days does not see the rest.\<close>

lemma streak_short_window:
  assumes "a \<le> n" and "\<exists>k \<in> set (scheduledKeysBack (weighDowsOf s) (getLocalDateKey nowDate) a).
                          k \<notin> weightKeys c"
  shows "countStreakWeights c s nowDate n = countStreakWeights c s nowDate a"
proof -
  from assms(1) obtain b where n: "n = a + b" using le_Suc_ex by blast
  from assms(2) obtain k where k:
    "k \<in> set (scheduledKeysBack (weighDowsOf s) (getLocalDateKey nowDate) a)"
    "\<not> k \<in> weightKeys c" by blast
  show ?thesis
    unfolding countStreakWeights_char n scheduledKeysBack_add
    by (simp only: takeWhile_append1[where P = "\<lambda>k. k \<in> weightKeys c", OF k])
qed

lemma streak_next_scheduled_day:
  assumes j: "0 < j" "j \<le> n"
    and only: "scheduledKeysBack (weighDowsOf s) (getLocalDateKey nowDate + int j) j
                 = [getLocalDateKey nowDate + int j]"
    and brk: "\<exists>k \<in> set (scheduledKeysBack (weighDowsOf s) (getLocalDateKey nowDate) (n - j)).
                 k \<notin> weightKeys c"
    and c': "weightKeys c' = insert (getLocalDateKey nowDate + int j) (weightKeys c)"
  shows "countStreakWeights c' s (addDays nowDate (int j)) n = countStreakWeights c s nowDate n + 1"
proof -
  let ?d = "weighDowsOf s" and ?t = "getLocalDateKey nowDate"
  let ?P = "\<lambda>k. k \<in> weightKeys c" and ?Q = "\<lambda>k. k \<in> weightKeys c'"
  have n: "n = j + (n - j)" "n = (n - j) + j" using j by simp_all
  have new: "scheduledKeysBack ?d (?t + int j) n = (?t + int j) # scheduledKeysBack ?d ?t (n - j)"
    using scheduledKeysBack_add[of ?d "?t + int j" j "n - j"] only n(1) by simp
  have old: "scheduledKeysBack ?d ?t n
      = scheduledKeysBack ?d ?t (n - j) @ scheduledKeysBack ?d (?t - int (n - j)) j"
    using scheduledKeysBack_add[of ?d ?t "n - j" j] n(2) by simp
  from brk obtain k where k: "k \<in> set (scheduledKeysBack ?d ?t (n - j))" "\<not> ?P k" by blast
  have o: "takeWhile ?P (scheduledKeysBack ?d ?t n) = takeWhile ?P (scheduledKeysBack ?d ?t (n - j))"
    unfolding old by (rule takeWhile_append1[where P = ?P, OF k])
  have same: "takeWhile ?Q (scheduledKeysBack ?d ?t (n - j))
            = takeWhile ?P (scheduledKeysBack ?d ?t (n - j))"
  proof (rule takeWhile_cong)
    fix k assume "k \<in> set (scheduledKeysBack ?d ?t (n - j))"
    then have "k \<le> ?t" using scheduledKeysBack_bounds[of k ?d ?t "n - j"] by simp
    then show "(k \<in> weightKeys c') = (k \<in> weightKeys c)" unfolding c' using j by simp
  qed simp
  show ?thesis
    unfolding countStreakWeights_char getLocalDateKey_addDays new o
    using same c' by simp
qed

text \<open>
  C3 (as amended). The weigh-in streak is the number of scheduled days, going backward
  day by day from today over the lookback window, that come before the first scheduled
  day without a weight record; days that are not scheduled are skipped. Adding a weight
  record on that first missing scheduled day raises the streak by one plus the length of
  the run of recorded scheduled days that lies behind the gap, so by exactly one when the
  next earlier scheduled day of the window has no record or the window ends there. When
  the next scheduled day arrives and gets its weight record, the streak counted on that
  day is the earlier streak plus one, provided the earlier scan was stopped by a missing
  scheduled day that is still inside the window. With no weight record left on the most
  recent scheduled day the streak is 0.
\<close>

theorem weigh_streak_scan:
  fixes st :: store and s :: settings and nowDate :: date and n :: nat and w :: weightRec
  shows
  "(let c = fst (buildChecklistCache st);
        today = getLocalDateKey nowDate;
        scheduled = scheduledKeysBack (weighDowsOf s) today n;
        stAdd = st\<lparr> STORE_WEIGHTS := w # STORE_WEIGHTS st \<rparr>;
        cAdd = fst (buildChecklistCache stAdd)
    in countStreakWeights c s nowDate n = length (takeWhile (\<lambda>k. k \<in> weightKeys c) scheduled)
     \<and> (\<forall>m rest. dropWhile (\<lambda>k. k \<in> weightKeys c) scheduled = m # rest
             \<and> getLocalDateKey (dateTimeISO w) = m \<longrightarrow>
           countStreakWeights cAdd s nowDate n
             = countStreakWeights c s nowDate n + 1
               + length (takeWhile (\<lambda>k. k \<in> weightKeys c) rest)
           \<and> (rest = [] \<or> hd rest \<notin> weightKeys c \<longrightarrow>
                countStreakWeights cAdd s nowDate n = countStreakWeights c s nowDate n + 1))
     \<and> (\<forall>j. 0 < j \<and> j \<le> n
             \<and> scheduledKeysBack (weighDowsOf s) (today + int j) j = [today + int j]
             \<and> getLocalDateKey (dateTimeISO w) = today + int j
             \<and> (\<exists>k \<in> set (scheduledKeysBack (weighDowsOf s) today (n - j)).
                    k \<notin> weightKeys c) \<longrightarrow>
           countStreakWeights cAdd s (addDays nowDate (int j)) n
             = countStreakWeights c s nowDate n + 1)
     \<and> (\<forall>m rest. scheduled = m # rest \<longrightarrow>
           countStreakWeights
             (fst (buildChecklistCache
                (st\<lparr> STORE_WEIGHTS :=
                      filter (\<lambda>x. getLocalDateKey (dateTimeISO x) \<noteq> m) (STORE_WEIGHTS st) \<rparr>)))
             s nowDate n = 0))"
proof -
  let ?c = "fst (buildChecklistCache st)"
  let ?L = "scheduledKeysBack (weighDowsOf s) (getLocalDateKey nowDate) n"
  let ?cAdd = "fst (buildChecklistCache (st\<lparr> STORE_WEIGHTS := w # STORE_WEIGHTS st \<rparr>))"
  have a: "countStreakWeights ?c s nowDate n = length (takeWhile (\<lambda>k. k \<in> weightKeys ?c) ?L)"
    by (rule countStreakWeights_char)
  have b: "countStreakWeights ?cAdd s nowDate n
             = countStreakWeights ?c s nowDate n + 1
               + length (takeWhile (\<lambda>k. k \<in> weightKeys ?c) rest)
           \<and> (rest = [] \<or> hd rest \<notin> weightKeys ?c \<longrightarrow>
                countStreakWeights ?cAdd s nowDate n = countStreakWeights ?c s nowDate n + 1)"
    if h: "dropWhile (\<lambda>k. k \<in> weightKeys ?c) ?L = m # rest \<and> getLocalDateKey (dateTimeISO w) = m"
    for m rest
  proof -
    have "?L = takeWhile (\<lambda>k. k \<in> weightKeys ?c) ?L @ m # rest"
      using h by (metis takeWhile_dropWhile_id)
    then have nin: "m \<notin> set rest" by (rule scheduledKeysBack_distinct_tail)
    have e: "countStreakWeights ?cAdd s nowDate n
             = countStreakWeights ?c s nowDate n + 1
               + length (takeWhile (\<lambda>k. k \<in> weightKeys ?c) rest)"
      unfolding countStreakWeights_char weightKeys_add
      using takeWhile_insert_gap[OF _ nin, of "weightKeys ?c" ?L] h by simp
    have "rest = [] \<or> hd rest \<notin> weightKeys ?c \<Longrightarrow> takeWhile (\<lambda>k. k \<in> weightKeys ?c) rest = []"
      by (cases rest) auto
    with e show ?thesis by simp
  qed
  have f: "countStreakWeights ?cAdd s (addDays nowDate (int j)) n
             = countStreakWeights ?c s nowDate n + 1"
    if h: "0 < j \<and> j \<le> n
             \<and> scheduledKeysBack (weighDowsOf s) (getLocalDateKey nowDate + int j) j
                  = [getLocalDateKey nowDate + int j]
             \<and> getLocalDateKey (dateTimeISO w) = getLocalDateKey nowDate + int j
             \<and> (\<exists>k \<in> set (scheduledKeysBack (weighDowsOf s) (getLocalDateKey nowDate) (n - j)).
                    k \<notin> weightKeys ?c)"
    for j
  proof (rule streak_next_scheduled_day)
    show "0 < j" "j \<le> n" using h by simp_all
    show "scheduledKeysBack (weighDowsOf s) (getLocalDateKey nowDate + int j) j
                  = [getLocalDateKey nowDate + int j]" using h by simp
    show "\<exists>k \<in> set (scheduledKeysBack (weighDowsOf s) (getLocalDateKey nowDate) (n - j)).
                    k \<notin> weightKeys ?c" using h by simp
    show "weightKeys ?cAdd = insert (getLocalDateKey nowDate + int j) (weightKeys ?c)"
      using h by (simp add: weightKeys_add)
  qed
  have c: "countStreakWeights
             (fst (buildChecklistCache
                (st\<lparr> STORE_WEIGHTS :=
                      filter (\<lambda>x. getLocalDateKey (dateTimeISO x) \<noteq> m) (STORE_WEIGHTS st) \<rparr>)))
             s nowDate n = 0" if "?L = m # rest" for m rest
    unfolding countStreakWeights_char weightKeys_remove using that by simp
  show ?thesis unfolding Let_def using a b f c by blast
qed

section \<open>Weekly adherence\<close>

lemma weekly_fields:
  "expectedWeights (weeklyConsistency c s n off) = length (expectedWeighKeys s (weekStartFor n off))"
  "doneWeights (weeklyConsistency c s n off)
     = length (filter (\<lambda>k. k \<in> weightKeys c) (expectedWeighKeys s (weekStartFor n off)))"
  "expectedInj (weeklyConsistency c s n off)
     = (case weekInjKey s (weekStartFor n off) of None \<Rightarrow> 0 | Some k \<Rightarrow> 1)"
  "doneInj (weeklyConsistency c s n off)
     = (case weekInjKey s (weekStartFor n off) of None \<Rightarrow> 0
        | Some k \<Rightarrow> if k \<in> injectionKeys c then 1 else 0)"
  "expectedPoints (weeklyConsistency c s n off)
     = expectedWeights (weeklyConsistency c s n off) + 2 * expectedInj (weeklyConsistency c s n off)"
  "donePoints (weeklyConsistency c s n off)
     = doneWeights (weeklyConsistency c s n off) + 2 * doneInj (weeklyConsistency c s n off)"
  "pct (weeklyConsistency c s n off)
     = (if expectedPoints (weeklyConsistency c s n off) \<noteq> 0
        then jsRound (real (donePoints (weeklyConsistency c s n off))
                      / real (expectedPoints (weeklyConsistency c s n off)) * 100)
        else 0)"
  by (simp_all add: weeklyConsistency_def Let_def split: option.splits)

lemma weekly_done_le:
  "doneWeights (weeklyConsistency c s n off) \<le> expectedWeights (weeklyConsistency c s n off)"
  "doneInj (weeklyConsistency c s n off) \<le> expectedInj (weeklyConsistency c s n off)"
  "expectedInj (weeklyConsistency c s n off) \<le> 1"
  "expectedWeights (weeklyConsistency c s n off) \<le> 7"
  by (simp_all add: weekly_fields(1-4) length_expectedWeighKeys split: option.splits)

lemma weekly_all_done_iff:
  "(donePoints (weeklyConsistency c s n off) = expectedPoints (weeklyConsistency c s n off))
   = ((\<forall>k \<in> set (expectedWeighKeys s (weekStartFor n off)). k \<in> weightKeys c)
      \<and> (\<forall>k. weekInjKey s (weekStartFor n off) = Some k \<longrightarrow> k \<in> injectionKeys c))"
proof -
  have "(donePoints (weeklyConsistency c s n off) = expectedPoints (weeklyConsistency c s n off))
    = (doneWeights (weeklyConsistency c s n off) = expectedWeights (weeklyConsistency c s n off)
       \<and> doneInj (weeklyConsistency c s n off) = expectedInj (weeklyConsistency c s n off))"
    using weekly_done_le[of c s n off] unfolding weekly_fields(5,6) by linarith
  also have "\<dots> = ((\<forall>k \<in> set (expectedWeighKeys s (weekStartFor n off)). k \<in> weightKeys c)
      \<and> (\<forall>k. weekInjKey s (weekStartFor n off) = Some k \<longrightarrow> k \<in> injectionKeys c))"
    unfolding weekly_fields(1-4) length_filter_eq_iff by (simp split: option.splits)
  finally show ?thesis .
qed

lemma range_bounds:
  "expectedPoints (computeScheduleAdherenceForRange n so ws ijs nowDate)
     = 1 * expectedWeights (computeScheduleAdherenceForRange n so ws ijs nowDate)
       + 2 * expectedInj (computeScheduleAdherenceForRange n so ws ijs nowDate)
   \<and> donePoints (computeScheduleAdherenceForRange n so ws ijs nowDate)
     = 1 * doneWeights (computeScheduleAdherenceForRange n so ws ijs nowDate)
       + 2 * doneInj (computeScheduleAdherenceForRange n so ws ijs nowDate)
   \<and> 0 \<le> pct (computeScheduleAdherenceForRange n so ws ijs nowDate)
   \<and> pct (computeScheduleAdherenceForRange n so ws ijs nowDate) \<le> 100
   \<and> (expectedPoints (computeScheduleAdherenceForRange n so ws ijs nowDate) = 0
        \<longrightarrow> pct (computeScheduleAdherenceForRange n so ws ijs nowDate) = 0)"
proof -
  define s where "s = (case so of None \<Rightarrow> DEFAULTS | Some v \<Rightarrow> v)"
  define days where "days = map (\<lambda>i. addDays (addDays (startOfDay nowDate) (- (max 1 n - 1)))
                                  (int i)) [0..<nat n]"
  define wDays where "wDays = filter (\<lambda>d. hasDow (weighDowsOf s) (getDay d)) days"
  define iDays where "iDays = filter (\<lambda>d. of_int (getDay d) = injDowOf s) days"
  define dw where "dw = length (filter (\<lambda>d. getLocalDateKey d
                          \<in> uniqueDateKeysFromDateTimeISO ws) wDays)"
  define di where "di = length (filter (\<lambda>d. getLocalDateKey d
                          \<in> uniqueDateKeysFromDateTimeISO ijs) iDays)"
  define e where "e = length wDays + length iDays * 2"
  define d where "d = dw + di * 2"
  have r: "computeScheduleAdherenceForRange n so ws ijs nowDate =
      \<lparr> expectedWeights = length wDays, doneWeights = dw,
        expectedInj = length iDays, doneInj = di,
        expectedPoints = e, donePoints = d,
        pct = (if e \<noteq> 0 then jsRound ((real d / real e) * 100) else 0) \<rparr>"
    unfolding computeScheduleAdherenceForRange_def Let_def s_def days_def wDays_def iDays_def
      dw_def di_def e_def d_def ..
  have le: "d \<le> e" unfolding d_def e_def dw_def di_def
    using length_filter_le[of _ wDays] length_filter_le[of _ iDays]
    by (simp add: add_mono)
  show ?thesis
    unfolding r using pct_bounds[OF le] by (simp add: e_def d_def)
qed

text \<open>
  C1. The weekly adherence counts one point for each expected weigh-in day and two points
  for the expected injection; its percentage lies between 0 and 100; it is 0 when no
  point is expected; and otherwise it is 100 exactly when every expected weigh-in day of
  that week has a weight record with its date key and the expected injection day of the
  week has an injection record with its date key. When the clamped injection weekday is
  an integer the week always has an expected injection day, so points are expected.
  The adherence over a range of days counts the same points and keeps the same bounds.
\<close>

theorem weeklyConsistency_adherence:
  fixes c :: cache and s :: settings and nowDate :: date and weekOffset :: int
  shows
   "(let r = weeklyConsistency c s nowDate weekOffset;
         start = weekStartFor nowDate weekOffset;
         allDone = ((\<forall>k \<in> set (expectedWeighKeys s start). k \<in> weightKeys c)
                    \<and> (\<forall>k. weekInjKey s start = Some k \<longrightarrow> k \<in> injectionKeys c))
     in expectedWeights r = length (expectedWeighKeys s start)
        \<and> expectedInj r = (if weekInjKey s start = None then 0 else 1)
        \<and> expectedPoints r = 1 * expectedWeights r + 2 * expectedInj r
        \<and> donePoints r = 1 * doneWeights r + 2 * doneInj r
        \<and> 0 \<le> pct r \<and> pct r \<le> 100
        \<and> (expectedPoints r = 0 \<longrightarrow> pct r = 0)
        \<and> (expectedPoints r \<noteq> 0 \<longrightarrow> (pct r = 100) = allDone)
        \<and> (injDowOf s \<in> \<int> \<longrightarrow>
             expectedPoints r \<noteq> 0
             \<and> (pct r = 100) =
                 ((\<forall>k \<in> set (expectedWeighKeys s start). k \<in> weightKeys c)
                  \<and> (\<exists>k. weekInjKey s start = Some k \<and> k \<in> injectionKeys c))))
    \<and> (let q = computeScheduleAdherenceForRange rangeDays settings ws ijs nowDate
       in expectedPoints q = 1 * expectedWeights q + 2 * expectedInj q
        \<and> donePoints q = 1 * doneWeights q + 2 * doneInj q
        \<and> 0 \<le> pct q \<and> pct q \<le> 100
        \<and> (expectedPoints q = 0 \<longrightarrow> pct q = 0))"
proof -
  let ?r = "weeklyConsistency c s nowDate weekOffset"
  let ?start = "weekStartFor nowDate weekOffset"
  let ?allDone = "(\<forall>k \<in> set (expectedWeighKeys s ?start). k \<in> weightKeys c)
                    \<and> (\<forall>k. weekInjKey s ?start = Some k \<longrightarrow> k \<in> injectionKeys c)"
  have le: "donePoints ?r \<le> expectedPoints ?r" "expectedPoints ?r < 200"
    using weekly_done_le[of c s nowDate weekOffset] unfolding weekly_fields(5,6) by linarith+
  have c1: "expectedWeights ?r = length (expectedWeighKeys s ?start)"
    by (simp add: weekly_fields(1))
  have c2: "expectedInj ?r = (if weekInjKey s ?start = None then 0 else 1)"
    by (simp add: weekly_fields(3) split: option.splits)
  have c3: "expectedPoints ?r = 1 * expectedWeights ?r + 2 * expectedInj ?r"
    by (simp add: weekly_fields(5))
  have c4: "donePoints ?r = 1 * doneWeights ?r + 2 * doneInj ?r"
    by (simp add: weekly_fields(6))
  have c5: "0 \<le> pct ?r" and c6: "pct ?r \<le> 100"
    using pct_bounds[OF le(1)] by (simp_all add: weekly_fields(7))
  have c7: "expectedPoints ?r = 0 \<longrightarrow> pct ?r = 0"
    by (simp add: weekly_fields(7))
  have i: "expectedPoints ?r \<noteq> 0 \<Longrightarrow> (pct ?r = 100) = (donePoints ?r = expectedPoints ?r)"
    using pct_100_iff[OF le(1) _ le(2)] by (simp add: weekly_fields(7))
  have c8: "expectedPoints ?r \<noteq> 0 \<longrightarrow> (pct ?r = 100) = ?allDone"
    using i weekly_all_done_iff[of c s nowDate weekOffset] by simp
  have c9: "injDowOf s \<in> \<int> \<longrightarrow>
             expectedPoints ?r \<noteq> 0
             \<and> (pct ?r = 100) =
                 ((\<forall>k \<in> set (expectedWeighKeys s ?start). k \<in> weightKeys c)
                  \<and> (\<exists>k. weekInjKey s ?start = Some k \<and> k \<in> injectionKeys c))"
  proof
    assume "injDowOf s \<in> \<int>"
    then obtain k where k: "weekInjKey s ?start = Some k"
      using weekInjKey_int[of s ?start] by blast
    then have ne: "expectedPoints ?r \<noteq> 0" unfolding c3 c2 by simp
    with c8 have "(pct ?r = 100) = ?allDone" by blast
    with k ne show "expectedPoints ?r \<noteq> 0
             \<and> (pct ?r = 100) =
                 ((\<forall>k \<in> set (expectedWeighKeys s ?start). k \<in> weightKeys c)
                  \<and> (\<exists>k. weekInjKey s ?start = Some k \<and> k \<in> injectionKeys c))"
      by simp
  qed
  note r = range_bounds[of rangeDays settings ws ijs nowDate]
  note r1 = r[THEN conjunct1]
  note r2 = r[THEN conjunct2, THEN conjunct1]
  note r3 = r[THEN conjunct2, THEN conjunct2, THEN conjunct1]
  note r4 = r[THEN conjunct2, THEN conjunct2, THEN conjunct2, THEN conjunct1]
  note r5 = r[THEN conjunct2, THEN conjunct2, THEN conjunct2, THEN conjunct2]
  show ?thesis
    unfolding Let_def
    using c1 c2 c3 c4 c5 c6 c7 c8 c9 r1 r2 r3 r4 r5
    by (intro conjI)
qed

section \<open>The due date of the measurement reminder\<close>

lemma measuresEvery_eq:
  "measuresEvery s = Some (if truthy (measureReminderEveryDays s)
       then (case jsNumber (measureReminderEveryDays s) of NaN \<Rightarrow> 14 | Fin r \<Rightarrow> max 7 \<lfloor>r\<rfloor>)
       else 14)"
proof (cases "measureReminderEveryDays s")
  case (JNum n)
  then show ?thesis
    by (cases n) (simp_all add: measuresEvery_def falsyOr_def DEFAULTS_def)
qed (simp_all add: measuresEvery_def falsyOr_def DEFAULTS_def)

lemma measuresEvery_ge7: "measuresEvery s = Some n \<Longrightarrow> 7 \<le> n"
  unfolding measuresEvery_eq by (auto split: if_splits jsnum.splits)

lemma dueKey_eq:
  "getLocalDateKey (addDays (parseDateKeyToLocalDate k (0, 0)) n) = k + n"
  by (simp add: getLocalDateKey_addDays parseDateKeyToLocalDate_def getLocalDateKey_atTime)

lemma isValidDate_due:
  assumes "minKey4 \<le> k" "k + n \<le> maxKey4" "0 \<le> n"
  shows "isValidDate (addDays (parseDateKeyToLocalDate k (0, 0)) n)"
  using assms
  by (simp add: isValidDate_def addDays_def parseDateKeyToLocalDate_def atTime_def
        msPerDay_def minKey4_def maxKey4_def)

text \<open>
  While the last measurement, the due date and today all have four-digit years, the
  function returns the date of the last measurement plus the cadence, and today when
  that date is before today.
\<close>

lemma computeMeasuresDueDateKey_four_digit_years:
  assumes e: "measuresEvery s = Some every" and l: "lastMeasures c = Some m"
    and t: "minKey4 \<le> todayKey" "todayKey \<le> maxKey4"
    and d: "minKey4 \<le> dateISO m" "dateISO m + every \<le> maxKey4"
  shows "computeMeasuresDueDateKey c s todayKey =
           Some (if dateISO m + every < todayKey then todayKey else dateISO m + every)"
proof -
  have n: "7 \<le> every" using e by (rule measuresEvery_ge7)
  then have v: "isValidDate (addDays (parseDateKeyToLocalDate (dateISO m) (0, 0)) every)"
    using d by (intro isValidDate_due) simp_all
  have lo: "minKey4 \<le> dateISO m + every" using d(1) n by linarith
  note cmp = compareDateKeys_days[OF lo d(2) t]
  show ?thesis
    unfolding computeMeasuresDueDateKey_def Let_def e l option.case dueKey_eq cmp
    using v by simp
qed

lemma computeMeasuresDueDateKey_no_measurement:
  "lastMeasures c = None \<Longrightarrow> computeMeasuresDueDateKey c s todayKey = Some todayKey"
  by (simp add: computeMeasuresDueDateKey_def)

lemma sort_key_desc_hd:
  assumes "sort_key (\<lambda>m. - f m) xs = y # ys"
  shows "y \<in> set xs \<and> (\<forall>x \<in> set xs. (f x :: int) \<le> f y)"
proof -
  have s: "sorted (map (\<lambda>m. - f m) (y # ys))" using assms by (metis sorted_sort_key)
  have e: "set (y # ys) = set xs" using assms by (metis set_sort)
  from s have "\<forall>x \<in> set ys. f x \<le> f y" by auto
  with e show ?thesis by auto
qed

lemma lastMeasures_latest:
  "(case lastMeasures (fst (buildChecklistCache st)) of
      None \<Rightarrow> STORE_MEASURES st = []
    | Some m \<Rightarrow> m \<in> set (STORE_MEASURES st)
                \<and> (\<forall>x \<in> set (STORE_MEASURES st). dateISO x \<le> dateISO m))"
proof (cases "sortByDateDesc (STORE_MEASURES st)")
  case Nil
  then have "STORE_MEASURES st = []"
    unfolding sortByDateDesc_def by (metis length_sort length_0_conv)
  with Nil show ?thesis by (simp add: buildChecklistCache_def Let_def)
next
  case (Cons y ys)
  then show ?thesis
    using sort_key_desc_hd[of dateISO "STORE_MEASURES st" y ys]
    by (simp add: buildChecklistCache_def Let_def sortByDateDesc_def)
qed

lemma farCadence_due:
  "measuresEvery farCadence = Some 3000000"
  "measuresEvery endlessCadence = Some 200000000"
  "keyText 3020570 = ''10240-01-16''"
  "keyText 20571 = ''2026-04-28''"
  "keyText 20570 = ''2026-04-27''"
proof -
  show "measuresEvery farCadence = Some 3000000"
    by (simp add: measuresEvery_eq farCadence_def)
  show "measuresEvery endlessCadence = Some 200000000"
    by (simp add: measuresEvery_eq endlessCadence_def)
  have c: "civilOfDay 3020570 = (10240, 1, 16)" "civilOfDay 20571 = (2026, 4, 28)"
    "civilOfDay 20570 = (2026, 4, 27)" by code_simp+
  show "keyText 3020570 = ''10240-01-16''" unfolding keyText_def c by (simp add: keyText_eval)
  show "keyText 20571 = ''2026-04-28''" unfolding keyText_def c by (simp add: keyText_eval)
  show "keyText 20570 = ''2026-04-27''" unfolding keyText_def c by (simp add: keyText_eval)
qed

text \<open>
  C4. The due date of the measurement reminder is the date of the last measurement plus
  the cadence, and today when that date is before today. The function compares the date
  keys as strings, and \<open>getLocalDateKey\<close> writes a year past 9999 with five digits, so
  the comparison no longer follows the dates: with the last measurement on 27 April 2026
  and the cadence 3000000 the due date is 16 January 10240, which lies after 28 April
  2026, and yet the key \<open>10240-01-16\<close> compares as less than \<open>2026-04-28\<close> and the
  function returns today. With the cadence 200000000 the due date leaves the range of
  \<open>Date\<close> and the function returns the key of an invalid date, which is the key of no
  day.
\<close>

theorem measures_due_date_past_year_9999:
  "lastMeasures exampleCache = Some \<lparr> dateISO = 20570 \<rparr>
   \<and> keyText 20570 = ''2026-04-27''
   \<and> measuresEvery farCadence = Some 3000000
   \<and> keyText (20570 + 3000000) = ''10240-01-16''
   \<and> keyText 20571 = ''2026-04-28''
   \<and> (20571 :: dateKey) < 20570 + 3000000
   \<and> compareDateKeys (20570 + 3000000) 20571 = - 1
   \<and> computeMeasuresDueDateKey exampleCache farCadence 20571 = Some 20571
   \<and> measuresEvery endlessCadence = Some 200000000
   \<and> computeMeasuresDueDateKey exampleCache endlessCadence 20571 = None"
proof -
  have l: "lastMeasures exampleCache = Some \<lparr> dateISO = 20570 \<rparr>"
    by (simp add: exampleCache_def buildChecklistCache_def exampleStore_def Let_def
          sortByDateDesc_def)
  have c: "compareDateKeys 3020570 20571 = - 1"
    unfolding compareDateKeys_def farCadence_due(3) farCadence_due(4) by simp
  have v: "isValidDate (addDays (parseDateKeyToLocalDate 20570 (0, 0)) 3000000)"
    "\<not> isValidDate (addDays (parseDateKeyToLocalDate 20570 (0, 0)) 200000000)"
    by (simp_all add: isValidDate_def addDays_def parseDateKeyToLocalDate_def atTime_def
          msPerDay_def)
  have d: "getLocalDateKey (addDays (parseDateKeyToLocalDate 20570 (0, 0)) 3000000) = 3020570"
    by (simp add: dueKey_eq)
  have r: "computeMeasuresDueDateKey exampleCache farCadence 20571 = Some 20571"
    unfolding computeMeasuresDueDateKey_def Let_def l farCadence_due(1)
    by (simp add: v d c)
  have n: "computeMeasuresDueDateKey exampleCache endlessCadence 20571 = None"
    unfolding computeMeasuresDueDateKey_def Let_def l farCadence_due(2)
    by (simp add: v)
  show ?thesis
    using l farCadence_due c r n by (intro conjI) simp_all
qed

section \<open>The checklist and its overdue items\<close>

lemma weightItems_ok: "it \<in> set (weightItems date c s nowDate) \<Longrightarrow> itemOk date nowDate it"
  unfolding weightItems_def itemOk_def Let_def compareDateKeys_zero
  by (cases "weighDaysOfWeek s") (auto split: if_splits)

lemma injectionItems_ok: "it \<in> set (injectionItems date c s nowDate) \<Longrightarrow> itemOk date nowDate it"
  unfolding injectionItems_def itemOk_def Let_def compareDateKeys_zero
  by (auto split: if_splits)

lemma measuresItems_ok: "it \<in> set (measuresItems date c s nowDate) \<Longrightarrow> itemOk date nowDate it"
  unfolding measuresItems_def itemOk_def Let_def compareDateKeys_zero
  by (cases "computeMeasuresDueDateKey c s (getLocalDateKey nowDate)") (auto split: if_splits)

lemma itemOk_status: "itemOk date nowDate it \<Longrightarrow> itemOk date nowDate (it\<lparr> status := x \<rparr>)"
  by (simp add: itemOk_def)

lemma buildChecklistForDate_item:
  assumes "it \<in> set (buildChecklistForDate date c s nowDate)"
  shows "dateKey it = getLocalDateKey date
       \<and> status it = Some (if isDone it then Done
                            else if compareDateKeys (getLocalDateKey date)
                                      (getLocalDateKey nowDate) < 0 then Late
                            else Pending)
       \<and> (kind it = Measures \<longrightarrow> \<not> required it \<and> warnAfterCutoff it = None)
       \<and> (kind it \<noteq> Measures \<longrightarrow> required it
             \<and> warnAfterCutoff it = Some (getLocalDateKey date = getLocalDateKey nowDate
                  \<and> isAfterTimeHHmm nowDate CHECKLIST_CUTOFF_TIME \<and> \<not> isDone it))"
proof -
  from assms obtain it0 where i: "it = it0\<lparr> status := Some (getStatus it0 nowDate) \<rparr>"
     "it0 \<in> set (weightItems date c s nowDate) \<or> it0 \<in> set (injectionItems date c s nowDate)
      \<or> it0 \<in> set (measuresItems date c s nowDate)"
    unfolding buildChecklistForDate_def by auto
  then have ok0: "itemOk date nowDate it0"
    using weightItems_ok injectionItems_ok measuresItems_ok by blast
  then have ok: "itemOk date nowDate it" unfolding i(1) by (rule itemOk_status)
  have st: "status it = Some (if isDone it then Done
                            else if compareDateKeys (getLocalDateKey date)
                                      (getLocalDateKey nowDate) < 0 then Late
                            else Pending)"
    using ok0 unfolding i(1) by (simp add: getStatus_def itemOk_def)
  from ok st show ?thesis unfolding itemOk_def by blast
qed

lemma overdueOfDay_item:
  assumes "it \<in> set (overdueOfDay d c s nowDate)"
  shows "dateKey it = getLocalDateKey d \<and> status it = Some Late
       \<and> warnAfterCutoff it = Some False \<and> required it \<and> \<not> isDone it
       \<and> kind it \<noteq> Measures"
proof -
  from assms obtain it0 where i: "it0 \<in> set (buildChecklistForDate d c s nowDate)"
      "required it0" "\<not> isDone it0"
      "it = it0\<lparr> status := Some Late, warnAfterCutoff := Some False \<rparr>"
    unfolding overdueOfDay_def by auto
  with buildChecklistForDate_item[OF i(1)] show ?thesis by auto
qed

lemma sorted_wrt_all:
  "\<forall>x \<in> set xs. \<forall>y \<in> set xs. P x y \<Longrightarrow> sorted_wrt P xs"
  by (induction xs) auto

lemma sorted_concat_desc:
  assumes "\<And>i x. x \<in> set (g i) \<Longrightarrow> f x = K - int i"
  shows "sorted (map (\<lambda>x. - f x) (concat (map g [a..<b])))"
proof (induction b)
  case 0 then show ?case by simp
next
  case (Suc b)
  show ?case
  proof (cases "a \<le> b")
    case False then show ?thesis by simp
  next
    case True
    have "\<forall>x \<in> set (g b). \<forall>y \<in> set (g b). - f x \<le> - f y"
      using assms by auto
    then have c: "sorted (map (\<lambda>x. - f x) (g b))"
      unfolding sorted_map by (rule sorted_wrt_all)
    have "\<forall>x \<in> set (concat (map g [a..<b])). \<forall>y \<in> set (g b). - f x \<le> - f y"
      using assms by auto
    with Suc c True show ?thesis
      by (simp add: sorted_append)
  qed
qed

lemma buildOverdueChecklist_eq:
  "buildOverdueChecklist daysBack nowDate st =
     (concat (map (\<lambda>i. overdueOfDay (addDays (startOfDay nowDate) (- int i))
                          (fst (buildChecklistCache st)) (fst (getSettings st)) nowDate)
                  [1..<Suc daysBack]), st)"
proof -
  let ?g = "\<lambda>i. overdueOfDay (addDays (startOfDay nowDate) (- int i))
                          (fst (buildChecklistCache st)) (fst (getSettings st)) nowDate"
  have "sorted (map (\<lambda>x. - dateKey x) (concat (map ?g [1..<Suc daysBack])))"
    by (rule sorted_concat_desc[where K = "getLocalDateKey nowDate"])
       (auto dest!: overdueOfDay_item simp: getLocalDateKey_addDays getLocalDateKey_startOfDay)
  then have "sort_key (\<lambda>it. - dateKey it) (concat (map ?g [1..<Suc daysBack]))
           = concat (map ?g [1..<Suc daysBack])"
    by (rule sort_key_id_if_sorted)
  then show ?thesis
    by (simp add: buildOverdueChecklist_def getSettings_def buildChecklistCache_def Let_def
          split: prod.splits)
qed


text \<open>
  C5. \<open>buildOverdueChecklist(daysBack)\<close> goes through the days from yesterday back to
  \<open>daysBack\<close> days ago and returns exactly the required items of those days that are
  not done, each with the status \<open>late\<close>, the most recent date key first (the final
  sort leaves the collected order as it is). It leaves the store as it found it, and a
  second call on the same records, settings and clock returns the same list.
\<close>

theorem buildOverdueChecklist_late_items:
  fixes daysBack :: nat and nowDate :: date and st :: store
  shows
  "(let s = fst (getSettings st);
        c = fst (buildChecklistCache st);
        today = getLocalDateKey nowDate;
        dayOf = (\<lambda>i. addDays (startOfDay nowDate) (- int i));
        items = fst (buildOverdueChecklist daysBack nowDate st)
    in snd (buildOverdueChecklist daysBack nowDate st) = st
     \<and> items = concat (map (\<lambda>i. overdueOfDay (dayOf i) c s nowDate) [1..<Suc daysBack])
     \<and> (\<forall>it. it \<in> set items \<longleftrightarrow>
           (\<exists>i \<in> {1..daysBack}. \<exists>it0 \<in> set (buildChecklistForDate (dayOf i) c s nowDate).
              required it0 \<and> \<not> isDone it0
              \<and> it = it0\<lparr> status := Some Late, warnAfterCutoff := Some False \<rparr>))
     \<and> (\<forall>it \<in> set items. status it = Some Late \<and> required it \<and> \<not> isDone it
           \<and> today - int daysBack \<le> dateKey it \<and> dateKey it \<le> today - 1)
     \<and> sorted_wrt (\<lambda>a b. dateKey b \<le> dateKey a) items
     \<and> buildOverdueChecklist daysBack nowDate
          (snd (buildOverdueChecklist daysBack nowDate st))
        = buildOverdueChecklist daysBack nowDate st)"
proof -
  let ?s = "fst (getSettings st)" and ?c = "fst (buildChecklistCache st)"
  let ?dayOf = "\<lambda>i. addDays (startOfDay nowDate) (- int i)"
  let ?items = "concat (map (\<lambda>i. overdueOfDay (?dayOf i) ?c ?s nowDate) [1..<Suc daysBack])"
  note eq = buildOverdueChecklist_eq[of daysBack nowDate st]
  have a: "snd (buildOverdueChecklist daysBack nowDate st) = st" by (simp add: eq)
  have b: "fst (buildOverdueChecklist daysBack nowDate st) = ?items" by (simp add: eq)
  have m: "\<forall>it. it \<in> set ?items \<longleftrightarrow>
           (\<exists>i \<in> {1..daysBack}. \<exists>it0 \<in> set (buildChecklistForDate (?dayOf i) ?c ?s nowDate).
              required it0 \<and> \<not> isDone it0
              \<and> it = it0\<lparr> status := Some Late, warnAfterCutoff := Some False \<rparr>)"
    unfolding overdueOfDay_def by auto
  have p: "\<forall>it \<in> set ?items. status it = Some Late \<and> required it \<and> \<not> isDone it
           \<and> getLocalDateKey nowDate - int daysBack \<le> dateKey it
           \<and> dateKey it \<le> getLocalDateKey nowDate - 1"
  proof
    fix it assume "it \<in> set ?items"
    then obtain i where i: "1 \<le> i" "i \<le> daysBack"
        "it \<in> set (overdueOfDay (?dayOf i) ?c ?s nowDate)" by auto
    from overdueOfDay_item[OF i(3)] i(1,2)
    show "status it = Some Late \<and> required it \<and> \<not> isDone it
           \<and> getLocalDateKey nowDate - int daysBack \<le> dateKey it
           \<and> dateKey it \<le> getLocalDateKey nowDate - 1"
      by (simp add: getLocalDateKey_addDays getLocalDateKey_startOfDay)
  qed
  have "sorted (map (\<lambda>x. - dateKey x) ?items)"
    by (rule sorted_concat_desc[where K = "getLocalDateKey nowDate"])
       (auto dest!: overdueOfDay_item simp: getLocalDateKey_addDays getLocalDateKey_startOfDay)
  then have srt: "sorted_wrt (\<lambda>a b. dateKey b \<le> dateKey a) ?items"
    by (simp add: sorted_map)
  have twice: "buildOverdueChecklist daysBack nowDate
          (snd (buildOverdueChecklist daysBack nowDate st))
        = buildOverdueChecklist daysBack nowDate st"
    by (simp add: a)
  show ?thesis
    unfolding Let_def b using a m p srt twice by (intro conjI) simp_all
qed

text \<open>
  C10. A measures item is created optional (\<open>required = false\<close>) and without a
  \<open>warnAfterCutoff\<close> property. So the overdue list never holds a measures item, and
  the warning after the 12:00 cutoff is set only on weight and injection items (those
  of today that are required and not done, once the cutoff has passed); no item of the
  overdue list or of the upcoming days carries it.
\<close>

theorem measures_items_optional:
  fixes date :: date and c :: cache and s :: settings and nowDate :: date
    and daysBack days :: nat and st :: store
  shows
  "(\<forall>it \<in> set (buildChecklistForDate date c s nowDate).
       kind it = Measures \<longrightarrow> \<not> required it \<and> warnAfterCutoff it = None)
   \<and> (\<forall>it \<in> set (buildChecklistForDate date c s nowDate).
       warnAfterCutoff it = Some True \<longrightarrow>
         (kind it = Weight \<or> kind it = Injection) \<and> required it \<and> \<not> isDone it
         \<and> dateKey it = getLocalDateKey nowDate
         \<and> isAfterTimeHHmm nowDate CHECKLIST_CUTOFF_TIME)
   \<and> (\<forall>it \<in> set (fst (buildOverdueChecklist daysBack nowDate st)).
       kind it \<noteq> Measures \<and> warnAfterCutoff it = Some False)
   \<and> (\<forall>e \<in> set (fst (buildUpcomingChecklist days nowDate st)).
       \<forall>it \<in> set (snd (snd e)).
         warnAfterCutoff it \<noteq> Some True
         \<and> (kind it = Measures \<longrightarrow> \<not> required it \<and> warnAfterCutoff it = None))"
proof (intro conjI ballI impI)
  fix it assume "it \<in> set (buildChecklistForDate date c s nowDate)" "kind it = Measures"
  then show "\<not> required it" "warnAfterCutoff it = None"
    using buildChecklistForDate_item by blast+
next
  fix it assume a: "it \<in> set (buildChecklistForDate date c s nowDate)"
    "warnAfterCutoff it = Some True"
  from buildChecklistForDate_item[OF a(1)] a(2)
  have k: "kind it \<noteq> Measures" by auto
  then show "kind it = Weight \<or> kind it = Injection" by (cases "kind it") auto
  from buildChecklistForDate_item[OF a(1)] a(2) k
  show "required it" "\<not> isDone it" "dateKey it = getLocalDateKey nowDate"
    "isAfterTimeHHmm nowDate CHECKLIST_CUTOFF_TIME" by auto
next
  fix it assume "it \<in> set (fst (buildOverdueChecklist daysBack nowDate st))"
  then obtain i where "it \<in> set (overdueOfDay (addDays (startOfDay nowDate) (- int i))
                          (fst (buildChecklistCache st)) (fst (getSettings st)) nowDate)"
    unfolding buildOverdueChecklist_eq by auto
  from overdueOfDay_item[OF this]
  show "kind it \<noteq> Measures" "warnAfterCutoff it = Some False" by auto
next
  fix e it assume a: "e \<in> set (fst (buildUpcomingChecklist days nowDate st))"
    "it \<in> set (snd (snd e))"
  from a(1) obtain i where i: "1 \<le> i" "snd (snd e) = buildChecklistForDate
       (addDays (startOfDay nowDate) (int i))
       (fst (buildChecklistCache st)) (fst (getSettings st)) nowDate"
    unfolding buildUpcomingChecklist_def
    by (auto simp: Let_def getSettings_def buildChecklistCache_def split: prod.splits)
  with a(2) have m: "it \<in> set (buildChecklistForDate (addDays (startOfDay nowDate) (int i))
       (fst (buildChecklistCache st)) (fst (getSettings st)) nowDate)" by simp
  have ne: "getLocalDateKey (addDays (startOfDay nowDate) (int i)) \<noteq> getLocalDateKey nowDate"
    using i(1) by (simp add: getLocalDateKey_addDays getLocalDateKey_startOfDay)
  from buildChecklistForDate_item[OF m] ne
  show "warnAfterCutoff it \<noteq> Some True" by (cases "kind it = Measures") auto
  assume "kind it = Measures"
  with buildChecklistForDate_item[OF m]
  show "\<not> required it" "warnAfterCutoff it = None" by auto
qed

section \<open>The next scheduled injection\<close>

lemma jsRem_int:
  "jsRem (of_int a) 7 = of_int (a mod 7)"
proof -
  have "\<lfloor>(of_int a :: real) / 7\<rfloor> = a div 7"
    using floor_divide_of_int_eq[of a 7, where 'a = real] by simp
  then show ?thesis unfolding jsRem_def
    by (simp add: mod_div_decomp minus_mult_div_eq_mod[symmetric] algebra_simps)
qed

lemma injDowOf_num: "0 \<le> w \<Longrightarrow> w \<le> 6 \<Longrightarrow> injectionDayOfWeek s = JNum (Fin (of_int w)) \<Longrightarrow> injDowOf s = of_int w"
  by (simp add: injDowOf_def clampNumber_def)

lemma computeNext_int:
  assumes "injDowOf s = of_int w"
  shows "computeNextScheduledDateTime s fromDate =
     (let delta = (w - getDay fromDate + 7) mod 7;
          candidate = atTime (getLocalDateKey fromDate) (injectionTimeOf s)
      in candidate + (if delta = 0 \<and> candidate \<le> fromDate then 7 else delta) * msPerDay)"
proof -
  have "jsRem (of_int w - of_int (getDay fromDate) + 7) 7 = of_int ((w - getDay fromDate + 7) mod 7)"
    using jsRem_int[of "w - getDay fromDate + 7"] by simp
  then show ?thesis
    unfolding computeNextScheduledDateTime_def assms Let_def setDatePlus_def
    by (simp del: of_int_diff of_int_add)
qed


lemma injectionTimeOf_some: "injectionTime s = Some hm \<Longrightarrow> injectionTimeOf s = hm"
  by (simp add: injectionTimeOf_def)

lemma next_core:
  fixes k w :: int and tod M fromDate :: int
  assumes M: "0 < M" and tod: "0 \<le> tod" "tod < M" and w: "0 \<le> w" "w \<le> 6"
    and k: "k = fromDate div M"
  defines "delta \<equiv> (w - (k + 4) mod 7 + 7) mod 7"
  defines "cand \<equiv> k * M + tod"
  defines "d2 \<equiv> (if delta = 0 \<and> cand \<le> fromDate then 7 else delta)"
  defines "r \<equiv> cand + d2 * M"
  shows "fromDate < r" "(r div M + 4) mod 7 = w" "r mod M = tod"
    "\<And>t. fromDate < t \<Longrightarrow> (t div M + 4) mod 7 = w \<Longrightarrow> t mod M = tod \<Longrightarrow> r \<le> t"
proof -
  have d0: "0 \<le> delta" "delta \<le> 6" unfolding delta_def by simp_all
  have d2: "0 \<le> d2" "d2 \<le> 7" unfolding d2_def using d0 by auto
  have r: "r = (k + d2) * M + tod" unfolding r_def cand_def by (simp add: algebra_simps)
  have rdiv: "r div M = k + d2" unfolding r using M tod by simp
  show rmod: "r mod M = tod" unfolding r using M tod by simp
  have f1: "k * M \<le> fromDate" and f2: "fromDate < (k + 1) * M"
  proof -
    have "fromDate = k * M + fromDate mod M" unfolding k by simp
    moreover have "0 \<le> fromDate mod M" "fromDate mod M < M" using M by simp_all
    ultimately show "k * M \<le> fromDate" "fromDate < (k + 1) * M"
      by (simp_all add: algebra_simps)
  qed
  show "fromDate < r"
  proof (cases "d2 = 0")
    case True
    then have "delta = 0" "\<not> cand \<le> fromDate" unfolding d2_def by (auto split: if_splits)
    then show ?thesis unfolding r_def True by simp
  next
    case False
    then have "1 \<le> d2" using d2 by simp
    then have "(k + 1) * M \<le> (k + d2) * M" using M by (simp add: mult_right_mono)
    then show ?thesis using f2 tod unfolding r by linarith
  qed
  have wk: "(k + 4 + delta) mod 7 = w"
  proof -
    have "(k + 4 + delta) mod 7 = (k + 4 + (w - (k + 4) + 7)) mod 7"
      unfolding delta_def by (simp add: mod_simps)
    also have "\<dots> = w" using w by simp
    finally show ?thesis .
  qed
  show "(r div M + 4) mod 7 = w"
  proof (cases "delta = 0 \<and> cand \<le> fromDate")
    case False
    then have "d2 = delta" unfolding d2_def by simp
    then show ?thesis using wk unfolding rdiv by (simp add: algebra_simps)
  next
    case True
    then have "d2 = 7" "delta = 0" unfolding d2_def by simp_all
    moreover have "(k + 4 + 7) mod 7 = (k + 4) mod 7" by (rule mod_add_self2)
    ultimately show ?thesis using wk unfolding rdiv by (simp add: add.commute add.left_commute)
  qed
  fix t assume t: "fromDate < t" "(t div M + 4) mod 7 = w" "t mod M = tod"
  define kt where "kt = t div M"
  have teq: "t = kt * M + tod" unfolding kt_def using t(3) by (metis mult.commute mult_div_mod_eq)
  have kk: "k \<le> kt" unfolding k kt_def using t(1) M by (simp add: zdiv_mono1)
  have km: "(kt - k) mod 7 = delta"
  proof -
    have "delta = ((kt + 4) mod 7 - (k + 4) mod 7 + 7) mod 7"
      unfolding delta_def using t(2) by (simp add: kt_def)
    also have "\<dots> = (kt + 4 - (k + 4) + 7) mod 7" by (simp add: mod_simps)
    also have "\<dots> = (kt - k) mod 7" by simp
    finally show ?thesis by simp
  qed
  have kd: "k + d2 \<le> kt"
  proof (cases "delta = 0 \<and> cand \<le> fromDate")
    case False
    then have "d2 = delta" unfolding d2_def by simp
    moreover have "(kt - k) mod 7 \<le> kt - k"
      using kk by (simp add: zmod_le_nonneg_dividend)
    ultimately show ?thesis using km by simp
  next
    case True
    then have dd: "d2 = 7" unfolding d2_def by simp
    have "kt \<noteq> k" using True t(1) unfolding teq cand_def by auto
    then have pos: "0 < kt - k" using kk by simp
    have "7 dvd (kt - k)" using km True by (simp add: dvd_eq_mod_eq_0)
    then have "7 \<le> kt - k" using pos by (rule zdvd_imp_le)
    then show ?thesis using dd by simp
  qed
  then have "(k + d2) * M \<le> kt * M" using M by (simp add: mult_right_mono)
  then show "r \<le> t" unfolding r teq by simp
qed


lemma next_weekly_general:
  fixes w :: int and hh mm :: nat and s :: settings and fromDate :: date
  assumes "0 \<le> w" "w \<le> 6" "hh < 24" "mm < 60"
    and "injDowOf s = of_int w"
    and "injectionTimeOf s = (hh, mm)"
  shows
  "(let r = computeNextScheduledDateTime s fromDate;
        slot = (int hh * 60 + int mm) * 60000;
        delta = (w - getDay fromDate + 7) mod 7;
        candidate = startOfDay fromDate + slot
    in fromDate < r \<and> getDay r = w \<and> timeOfDay r = slot
     \<and> (\<forall>t. fromDate < t \<and> getDay t = w \<and> timeOfDay t = slot \<longrightarrow> r \<le> t)
     \<and> r = addDays candidate (if delta = 0 \<and> candidate \<le> fromDate then 7 else delta))"
proof -
  define slot where "slot = (int hh * 60 + int mm) * 60000"
  define k where "k = fromDate div msPerDay"
  have M: "0 < msPerDay" by (simp add: msPerDay_def)
  have tod: "0 \<le> slot" "slot < msPerDay"
    using assms(3,4) unfolding slot_def msPerDay_def by simp_all
  note dow = assms(5)
  have r: "computeNextScheduledDateTime s fromDate =
      k * msPerDay + slot
        + (if (w - (k + 4) mod 7 + 7) mod 7 = 0 \<and> k * msPerDay + slot \<le> fromDate
           then 7 else (w - (k + 4) mod 7 + 7) mod 7) * msPerDay"
    unfolding computeNext_int[OF dow] assms(6)
    by (simp add: Let_def atTime_def getDay_def getLocalDateKey_def k_def slot_def)
  note core = next_core[OF M tod assms(1,2) k_def, folded r]
  have a: "fromDate < computeNextScheduledDateTime s fromDate" by (rule core(1))
  have b: "getDay (computeNextScheduledDateTime s fromDate) = w"
    using core(2) by (simp add: getDay_def getLocalDateKey_def)
  have c: "timeOfDay (computeNextScheduledDateTime s fromDate) = slot"
    using core(3) by (simp add: timeOfDay_def)
  have d: "\<forall>t. fromDate < t \<and> getDay t = w \<and> timeOfDay t = slot
             \<longrightarrow> computeNextScheduledDateTime s fromDate \<le> t"
    using core(4) by (simp add: getDay_def getLocalDateKey_def timeOfDay_def)
  have e: "computeNextScheduledDateTime s fromDate =
      addDays (startOfDay fromDate + slot)
        (if (w - getDay fromDate + 7) mod 7 = 0 \<and> startOfDay fromDate + slot \<le> fromDate
         then 7 else (w - getDay fromDate + 7) mod 7)"
    unfolding r by (simp add: addDays_def startOfDay_def getDay_def getLocalDateKey_def k_def)
  show ?thesis
    unfolding Let_def slot_def[symmetric] using a b c d e by (intro conjI)
qed

text \<open>
  C6. For a weekday index from 0 to 6 and a time \<open>HH:mm\<close>, the next scheduled date is
  the earliest instant strictly after \<open>from\<close> that falls on that weekday at that
  wall-clock time (an instant equal to \<open>from\<close> rolls to the next week). It is the
  day of \<open>from\<close> at that time plus \<open>delta = (weekday - from.weekday + 7) mod 7\<close>
  days, with 7 days instead when \<open>delta\<close> is 0 and the candidate of the same day is
  not after \<open>from\<close>.
\<close>

theorem next_weekly_occurrence:
  fixes w :: int and hh mm :: nat and s :: settings and fromDate :: date
  assumes "0 \<le> w" "w \<le> 6" "hh < 24" "mm < 60"
    and "injectionDayOfWeek s = JNum (Fin (of_int w))"
    and "injectionTime s = Some (hh, mm)"
  shows
  "(let r = computeNextScheduledDateTime s fromDate;
        slot = (int hh * 60 + int mm) * 60000;
        delta = (w - getDay fromDate + 7) mod 7;
        candidate = startOfDay fromDate + slot
    in fromDate < r \<and> getDay r = w \<and> timeOfDay r = slot
     \<and> (\<forall>t. fromDate < t \<and> getDay t = w \<and> timeOfDay t = slot \<longrightarrow> r \<le> t)
     \<and> r = addDays candidate (if delta = 0 \<and> candidate \<le> fromDate then 7 else delta))"
  using assms(1-4) injDowOf_num[OF assms(1,2,5)] injectionTimeOf_some[OF assms(6)]
  by (rule next_weekly_general)

section \<open>Regularity and trend on few records\<close>

lemma length_intervalsOf: "length (intervalsOf ts) = length ts - 1"
  by (induction ts rule: intervalsOf.induct) auto

lemma sorted_ends:
  assumes "sorted (map f ys)" "ys \<noteq> []"
  shows "\<forall>x \<in> set ys. (f (hd ys) :: int) \<le> f x \<and> f x \<le> f (last ys)"
proof
  fix x assume "x \<in> set ys"
  then obtain i where i: "i < length ys" "ys ! i = x" by (auto simp: in_set_conv_nth)
  have "map f ys ! 0 \<le> map f ys ! i"
    using assms(1) i(1) by (intro sorted_nth_mono) auto
  moreover have "map f ys ! i \<le> map f ys ! (length ys - 1)"
    using assms(1) i(1) by (intro sorted_nth_mono) auto
  ultimately show "f (hd ys) \<le> f x \<and> f x \<le> f (last ys)"
    using i assms(2) by (simp add: last_conv_nth hd_conv_nth)
qed

lemma sort_key_asc_ends:
  assumes "xs \<noteq> []"
  shows "hd (sort_key f xs) \<in> set xs \<and> last (sort_key f xs) \<in> set xs
       \<and> (\<forall>x \<in> set xs. (f (hd (sort_key f xs)) :: int) \<le> f x \<and> f x \<le> f (last (sort_key f xs)))"
proof -
  let ?ys = "sort_key f xs"
  have ne: "?ys \<noteq> []" using assms by (metis length_sort length_0_conv)
  have e: "set ?ys = set xs" by (rule set_sort)
  have m: "hd ?ys \<in> set xs" "last ?ys \<in> set xs"
    using hd_in_set[OF ne] last_in_set[OF ne] unfolding e by blast+
  from sorted_ends[OF sorted_sort_key ne] have
    "\<forall>x \<in> set xs. f (hd ?ys) \<le> f x \<and> f x \<le> f (last ?ys)" unfolding e .
  with m show ?thesis by blast
qed

text \<open>
  C7. With fewer than two records the injection regularity (mean interval, on-schedule
  rate) and the weight trend (delta and delta per week) are null, not zero. With two or
  more records they are defined: the mean and the rate divide by the number of intervals,
  which is the number of records minus one, and the trend divides by the elapsed days
  between the earliest and the latest record, raised to at least 1, over 7.
\<close>

theorem insufficient_data_undefined:
  fixes injs :: "injectionRec list" and ws :: "weightRec list"
  shows
  "(length injs < 2 \<longrightarrow>
      meanDays (computeInjectionRegularity injs) = None
      \<and> onTimeRate (computeInjectionRegularity injs) = None)
   \<and> (length ws < 2 \<longrightarrow>
      deltaKg (computeWeightTrend ws) = None \<and> perWeekKg (computeWeightTrend ws) = None)
   \<and> (2 \<le> length injs \<longrightarrow>
      (let intervals = intervalsOf (sort (map dateTimeISO injs)) in
       length intervals = length injs - 1 \<and> real (length intervals) \<noteq> 0
       \<and> meanDays (computeInjectionRegularity injs)
           = Some (sum_list intervals / real (length intervals))
       \<and> onTimeRate (computeInjectionRegularity injs)
           = Some (real (length (filter (\<lambda>d. 6 \<le> d \<and> d \<le> 8) intervals))
                   / real (length intervals))))
   \<and> (2 \<le> length ws \<longrightarrow>
      (let asc = sortByDateTimeAsc ws;
           days = max 1 (daysBetween (dateTimeISO (last asc)) (dateTimeISO (hd asc))) in
       hd asc \<in> set ws \<and> last asc \<in> set ws
       \<and> (\<forall>x \<in> set ws. dateTimeISO (hd asc) \<le> dateTimeISO x
                          \<and> dateTimeISO x \<le> dateTimeISO (last asc))
       \<and> 1 \<le> days \<and> days / 7 \<noteq> 0
       \<and> deltaKg (computeWeightTrend ws) = Some (weightKg (last asc) - weightKg (hd asc))
       \<and> perWeekKg (computeWeightTrend ws)
           = Some ((weightKg (last asc) - weightKg (hd asc)) / (days / 7))))"
proof (intro conjI impI)
  assume "length injs < 2"
  then show "meanDays (computeInjectionRegularity injs) = None"
    "onTimeRate (computeInjectionRegularity injs) = None"
    by (simp_all add: computeInjectionRegularity_def)
next
  assume "length ws < 2"
  then show "deltaKg (computeWeightTrend ws) = None" "perWeekKg (computeWeightTrend ws) = None"
    by (simp_all add: computeWeightTrend_def)
next
  assume a: "2 \<le> length injs"
  have n: "length (intervalsOf (sort (map dateTimeISO injs))) = length injs - 1"
    by (simp add: length_intervalsOf)
  then have nz: "real (length (intervalsOf (sort (map dateTimeISO injs)))) \<noteq> 0"
    using a by simp
  show "(let intervals = intervalsOf (sort (map dateTimeISO injs)) in
       length intervals = length injs - 1 \<and> real (length intervals) \<noteq> 0
       \<and> meanDays (computeInjectionRegularity injs)
           = Some (sum_list intervals / real (length intervals))
       \<and> onTimeRate (computeInjectionRegularity injs)
           = Some (real (length (filter (\<lambda>d. 6 \<le> d \<and> d \<le> 8) intervals))
                   / real (length intervals)))"
    unfolding Let_def using a n nz
    by (simp add: computeInjectionRegularity_def Let_def safeRatio_def)
next
  assume a: "2 \<le> length ws"
  then have ne: "ws \<noteq> []" by auto
  note ends = sort_key_asc_ends[OF ne, of dateTimeISO, folded sortByDateTimeAsc_def]
  show "(let asc = sortByDateTimeAsc ws;
           days = max 1 (daysBetween (dateTimeISO (last asc)) (dateTimeISO (hd asc))) in
       hd asc \<in> set ws \<and> last asc \<in> set ws
       \<and> (\<forall>x \<in> set ws. dateTimeISO (hd asc) \<le> dateTimeISO x
                          \<and> dateTimeISO x \<le> dateTimeISO (last asc))
       \<and> 1 \<le> days \<and> days / 7 \<noteq> 0
       \<and> deltaKg (computeWeightTrend ws) = Some (weightKg (last asc) - weightKg (hd asc))
       \<and> perWeekKg (computeWeightTrend ws)
           = Some ((weightKg (last asc) - weightKg (hd asc)) / (days / 7)))"
    unfolding Let_def using a ends
    by (simp add: computeWeightTrend_def trendDays_def Let_def)
qed

section \<open>The rule of recurring high nausea\<close>

lemma plateauRule_sev: "it \<in> set (plateauRule c n) \<Longrightarrow> severity it = Warn"
  by (auto simp: plateauRule_def Let_def split: if_splits)

lemma retentionRule_sev: "it \<in> set (retentionRule c) \<Longrightarrow> severity it = Info"
  by (auto simp: retentionRule_def split: if_splits)

lemma weighRoutineRule_sev: "it \<in> set (weighRoutineRule c s n) \<Longrightarrow> severity it = Warn"
  by (auto simp: weighRoutineRule_def Let_def split: if_splits)

lemma scheduleRule_sev: "it \<in> set (scheduleRule c s) \<Longrightarrow> severity it = Warn"
  by (auto simp: scheduleRule_def Let_def split: if_splits list.splits)

lemma nauseaRule_cases:
  "nauseaRule c = (if \<exists>a b rest. sortByDateTimeDesc (injections c) = a # b # rest
                        \<and> 7 \<le> nauseaScore a \<and> 7 \<le> nauseaScore b
                   then [\<lparr> title = HighNausea, severity = Danger \<rparr>] else [])"
  by (auto simp: nauseaRule_def split: list.splits)

lemma danger_iff:
  "(\<exists>it \<in> set (buildLocalInsights c s n). severity it = Danger)
     = (\<exists>a b rest. sortByDateTimeDesc (injections c) = a # b # rest
                        \<and> 7 \<le> nauseaScore a \<and> 7 \<le> nauseaScore b)"
proof -
  have o: "\<And>it. it \<in> set (plateauRule c n @ retentionRule c @ weighRoutineRule c s n
                  @ scheduleRule c s) \<Longrightarrow> severity it \<noteq> Danger"
    using plateauRule_sev retentionRule_sev weighRoutineRule_sev scheduleRule_sev
    by fastforce
  show ?thesis
  proof (cases "\<exists>a b rest. sortByDateTimeDesc (injections c) = a # b # rest
                        \<and> 7 \<le> nauseaScore a \<and> 7 \<le> nauseaScore b")
    case True
    then have "nauseaRule c = [\<lparr> title = HighNausea, severity = Danger \<rparr>]"
      by (simp add: nauseaRule_cases)
    then have "\<lparr> title = HighNausea, severity = Danger \<rparr> \<in> set (buildLocalInsights c s n)"
      by (simp add: buildLocalInsights_def Let_def)
    with True show ?thesis by force
  next
    case False
    then have e: "nauseaRule c = []" by (simp add: nauseaRule_cases)
    have "\<And>it. it \<in> set (buildLocalInsights c s n) \<Longrightarrow> severity it \<noteq> Danger"
      using o unfolding buildLocalInsights_def Let_def e by (auto split: if_splits)
    with False show ?thesis by blast
  qed
qed

lemma danger_item:
  "it \<in> set (buildLocalInsights c s n) \<Longrightarrow> severity it = Danger \<Longrightarrow>
     it = \<lparr> title = HighNausea, severity = Danger \<rparr>"
proof -
  assume a: "it \<in> set (buildLocalInsights c s n)" "severity it = Danger"
  have "it \<in> set (nauseaRule c)"
    using a plateauRule_sev[of it c n] retentionRule_sev[of it c]
      weighRoutineRule_sev[of it c s n] scheduleRule_sev[of it c s]
    unfolding buildLocalInsights_def Let_def by (auto split: if_splits)
  then show ?thesis unfolding nauseaRule_cases by (auto split: if_splits)
qed

lemma distinct_keys_sort:
  "distinct (map f (sort_key (\<lambda>r. - f r) xs)) = distinct (map (f :: 'a \<Rightarrow> int) xs)"
proof -
  have n: "\<And>ys. distinct (map (\<lambda>r. - f r) ys) = distinct (map f ys)"
    by (simp add: distinct_map inj_on_def)
  have "distinct (map (\<lambda>r. - f r) (sort_key (\<lambda>r. - f r) xs)) = distinct (map (\<lambda>r. - f r) xs)"
    by (induction xs) (auto simp: distinct_insort_key)
  then show ?thesis unfolding n .
qed

lemma two_most_recent:
  assumes d: "distinct (map dateTimeISO xs)"
    and a: "a \<in> set xs" and b: "b \<in> set xs" and ab: "dateTimeISO b < dateTimeISO a"
    and r: "\<forall>x \<in> set xs. x \<noteq> a \<longrightarrow> dateTimeISO x \<le> dateTimeISO b"
  shows "\<exists>rest. sortByDateTimeDesc xs = a # b # rest"
proof -
  let ?ys = "sortByDateTimeDesc xs"
  have e: "set ?ys = set xs" unfolding sortByDateTimeDesc_def by (rule set_sort)
  have s: "sorted (map (\<lambda>r. - dateTimeISO r) ?ys)"
    unfolding sortByDateTimeDesc_def by (rule sorted_sort_key)
  have dy: "distinct (map dateTimeISO ?ys)"
    unfolding sortByDateTimeDesc_def distinct_keys_sort using d .
  have "a \<noteq> b" using ab by auto
  have "\<exists>a' b' rest. ?ys = a' # b' # rest"
  proof (cases ?ys)
    case Nil
    have "a \<in> set ?ys" using a e by blast
    then show ?thesis using Nil by simp
  next
    case (Cons x zs)
    have "a \<in> set ?ys" "b \<in> set ?ys" using a b e by blast+
    then show ?thesis using Cons \<open>a \<noteq> b\<close> by (cases zs) auto
  qed
  then obtain a' b' rest where ys: "?ys = a' # b' # rest" by blast
  have top: "\<forall>x \<in> set (b' # rest). dateTimeISO x \<le> dateTimeISO a'"
    and snd: "\<forall>x \<in> set rest. dateTimeISO x \<le> dateTimeISO b'"
    using s unfolding ys by auto
  have ne: "dateTimeISO a' \<noteq> dateTimeISO b'" "\<forall>x \<in> set rest. dateTimeISO x \<noteq> dateTimeISO b'"
    using dy unfolding ys by (auto simp: image_iff)
  have mem: "a' \<in> set xs" "b' \<in> set xs" using e unfolding ys by auto
  have "a' = a"
  proof (rule ccontr)
    assume n: "a' \<noteq> a"
    then have "dateTimeISO a' \<le> dateTimeISO b" using r mem by blast
    moreover have "a \<in> set (b' # rest)" using a e n unfolding ys by auto
    then have "dateTimeISO a \<le> dateTimeISO a'" using top by blast
    ultimately show False using ab by linarith
  qed
  moreover have "b' = b"
  proof (rule ccontr)
    assume n: "b' \<noteq> b"
    have "b' \<noteq> a" using ne(1) \<open>a' = a\<close> by auto
    then have le: "dateTimeISO b' \<le> dateTimeISO b" using r mem by blast
    have "b \<in> set rest" using b e n \<open>a \<noteq> b\<close> \<open>a' = a\<close> unfolding ys by auto
    then have "dateTimeISO b \<le> dateTimeISO b'" "dateTimeISO b \<noteq> dateTimeISO b'"
      using snd ne(2) by blast+
    with le show False by linarith
  qed
  ultimately show ?thesis using ys by blast
qed

lemma nauseaScore_ge7:
  "(7 \<le> nauseaScore i) = (\<exists>r. nausea i = JNum (Fin r) \<and> 7 \<le> r)"
proof (cases "nausea i")
  case (JNum n)
  then show ?thesis by (cases n) (auto simp: nauseaScore_def clampNumber_def)
qed (simp_all add: nauseaScore_def clampNumber_def)


text \<open>
  C8. The insight of severity \<open>danger\<close> is in the result exactly when the two first
  injections in descending order of timestamp both have a nausea score of 7 or more.
  When the timestamps are distinct these are the most recent injection and the one
  before it, so no other injection affects the outcome. Only the nausea rule produces
  that severity, and a score is 7 or more exactly when the recorded number is.
\<close>

theorem recurring_high_nausea:
  fixes c :: cache and s :: settings and nowDate :: date
  shows
  "((\<exists>it \<in> set (buildLocalInsights c s nowDate). severity it = Danger)
      = (\<exists>a b rest. sortByDateTimeDesc (injections c) = a # b # rest
            \<and> 7 \<le> nauseaScore a \<and> 7 \<le> nauseaScore b))
   \<and> (\<forall>a b. distinct (map dateTimeISO (injections c))
          \<and> a \<in> set (injections c) \<and> b \<in> set (injections c)
          \<and> dateTimeISO b < dateTimeISO a
          \<and> (\<forall>x \<in> set (injections c). x \<noteq> a \<longrightarrow> dateTimeISO x \<le> dateTimeISO b)
        \<longrightarrow> ((\<lparr> title = HighNausea, severity = Danger \<rparr> \<in> set (buildLocalInsights c s nowDate))
              = (7 \<le> nauseaScore a \<and> 7 \<le> nauseaScore b)))
   \<and> (\<forall>it \<in> set (buildLocalInsights c s nowDate).
          severity it = Danger \<longrightarrow> title it = HighNausea)
   \<and> (\<forall>i. (7 \<le> nauseaScore i) = (\<exists>r. nausea i = JNum (Fin r) \<and> 7 \<le> r))"
proof (intro conjI allI impI ballI)
  show "(\<exists>it \<in> set (buildLocalInsights c s nowDate). severity it = Danger)
      = (\<exists>a b rest. sortByDateTimeDesc (injections c) = a # b # rest
            \<and> 7 \<le> nauseaScore a \<and> 7 \<le> nauseaScore b)"
    by (rule danger_iff)
next
  fix a b
  assume h: "distinct (map dateTimeISO (injections c))
          \<and> a \<in> set (injections c) \<and> b \<in> set (injections c)
          \<and> dateTimeISO b < dateTimeISO a
          \<and> (\<forall>x \<in> set (injections c). x \<noteq> a \<longrightarrow> dateTimeISO x \<le> dateTimeISO b)"
  then obtain rest where r: "sortByDateTimeDesc (injections c) = a # b # rest"
    using two_most_recent[of "injections c" a b] by blast
  have "(\<lparr> title = HighNausea, severity = Danger \<rparr> \<in> set (buildLocalInsights c s nowDate))
      = (\<exists>it \<in> set (buildLocalInsights c s nowDate). severity it = Danger)"
    using danger_item[of _ c s nowDate] by force
  also have "\<dots> = (7 \<le> nauseaScore a \<and> 7 \<le> nauseaScore b)"
    unfolding danger_iff r by simp
  finally show "(\<lparr> title = HighNausea, severity = Danger \<rparr> \<in> set (buildLocalInsights c s nowDate))
      = (7 \<le> nauseaScore a \<and> 7 \<le> nauseaScore b)" .
next
  fix it assume "it \<in> set (buildLocalInsights c s nowDate)" "severity it = Danger"
  from danger_item[OF this] show "title it = HighNausea" by simp
next
  fix i show "(7 \<le> nauseaScore i) = (\<exists>r. nausea i = JNum (Fin r) \<and> 7 \<le> r)"
    by (rule nauseaScore_ge7)
qed

section \<open>The clamped injection weekday\<close>





section \<open>Worked examples\<close>

lemma exampleCache_keys:
  "weightKeys exampleCache = {20577, 20579, 20581}"
  "injectionKeys exampleCache = {20575, 20582, 20568}"
  "measuresKeys exampleCache = {20570}"
  "lastMeasures exampleCache = Some \<lparr> dateISO = 20570 \<rparr>"
  by (simp_all add: exampleCache_def buildChecklistCache_def exampleStore_def Let_def
        getLocalDateKey_def msPerDay_def sortByDateDesc_def)

lemma exampleNow_day:
  "getLocalDateKey exampleNow = 20582" "getDay exampleNow = 6"
  "startOfDay exampleNow = 1778284800000"
  by (simp_all add: exampleNow_def getLocalDateKey_def getDay_def msPerDay_def startOfDay_def)

lemma example_weeks:
  "weekStartFor exampleNow 0 = 1777852800000"
  "weekStartFor exampleNow 1 = 1777248000000"
  by (simp_all add: weekStartFor_def startOfWeekMonday_def startOfDay_def getLocalDateKey_def
        getDay_def addDays_def msPerDay_def exampleNow_def Let_def)

lemma example_expected:
  "expectedWeighKeys DEFAULTS 1777852800000 = [20577, 20579, 20581]"
  "expectedWeighKeys DEFAULTS 1777248000000 = [20570, 20572, 20574]"
  "expectedWeighKeys (fractionalSettings\<lparr> weighDaysOfWeek := Some [] \<rparr>) 1777852800000 = []"
  by (simp_all add: expectedWeighKeys_def weekDates_def hasDow_def weighDowsOf_def DEFAULTS_def
        fractionalSettings_def getDay_def getLocalDateKey_def addDays_def msPerDay_def)

lemma example_injKey:
  "weekInjKey DEFAULTS 1777852800000 = Some 20582"
  "weekInjKey DEFAULTS 1777248000000 = Some 20575"
  by (simp_all add: weekInjKey_def findInjectionDate_def weekDates_def injDowOf_def
        clampNumber_def DEFAULTS_def getDay_def getLocalDateKey_def addDays_def msPerDay_def)

lemma five_halves_not_int: "(5 / 2 :: real) \<notin> \<int>"
proof
  assume "(5 / 2 :: real) \<in> \<int>"
  then obtain k :: int where "(5 / 2 :: real) = of_int k" by (auto elim: Ints_cases)
  then have "(5 :: real) = of_int (2 * k)" by simp
  then have "(5 :: int) = 2 * k" by (metis of_int_eq_iff of_int_numeral)
  then show False by presburger
qed

lemma fractional_injDow:
  "injDowOf fractionalSettings = 5 / 2"
  "injDowOf (fractionalSettings\<lparr> weighDaysOfWeek := Some [] \<rparr>) = 5 / 2"
  by (simp_all add: injDowOf_def clampNumber_def fractionalSettings_def DEFAULTS_def)

lemma fractional_injKey:
  "weekInjKey fractionalSettings start = None"
  "weekInjKey (fractionalSettings\<lparr> weighDaysOfWeek := Some [] \<rparr>) start = None"
  using five_halves_not_int
  by (simp_all add: weekInjKey_def findInjectionDate_nonint fractional_injDow)



lemma gap_keys:
  "weightKeys (fst (buildChecklistCache gapStore)) = {20577, 20581}"
  "weightKeys (fst (buildChecklistCache fridayStore)) = {20581}"
  "getLocalDateKey (dateTimeISO wednesdayWeight) = 20579"
  by (simp_all add: buildChecklistCache_def gapStore_def fridayStore_def exampleStore_def
        wednesdayWeight_def Let_def getLocalDateKey_def msPerDay_def)

lemma example_scheduled:
  "scheduledKeysBack (weighDowsOf DEFAULTS) 20582 7 = [20581, 20579, 20577]"
  by (simp add: eval_nat_numeral scheduledKeysBack_Suc scheduledKeysBack_0 hasDow_def
        dowOfKey_def weighDowsOf_def DEFAULTS_def)

lemma example_scheduled14:
  "scheduledKeysBack (weighDowsOf DEFAULTS) 20582 14
     = [20581, 20579, 20577, 20574, 20572, 20570]"
  by (simp add: eval_nat_numeral scheduledKeysBack_Suc scheduledKeysBack_0 hasDow_def
        dowOfKey_def weighDowsOf_def DEFAULTS_def)

lemma gap_streaks:
  "countStreakWeights (fst (buildChecklistCache gapStore)) DEFAULTS exampleNow 120 = 1"
  "countStreakWeights
     (fst (buildChecklistCache
        (gapStore\<lparr> STORE_WEIGHTS := wednesdayWeight # STORE_WEIGHTS gapStore \<rparr>)))
     DEFAULTS exampleNow 120 = 3"
proof -
  have "countStreakWeights (fst (buildChecklistCache gapStore)) DEFAULTS exampleNow 120
      = countStreakWeights (fst (buildChecklistCache gapStore)) DEFAULTS exampleNow 14"
    by (rule streak_short_window) (simp_all add: exampleNow_day example_scheduled14 gap_keys)
  then show "countStreakWeights (fst (buildChecklistCache gapStore)) DEFAULTS exampleNow 120 = 1"
    by (simp add: countStreakWeights_char exampleNow_day example_scheduled14 gap_keys)
  let ?c = "fst (buildChecklistCache
        (gapStore\<lparr> STORE_WEIGHTS := wednesdayWeight # STORE_WEIGHTS gapStore \<rparr>))"
  have "countStreakWeights ?c DEFAULTS exampleNow 120 = countStreakWeights ?c DEFAULTS exampleNow 14"
    by (rule streak_short_window)
       (simp_all add: exampleNow_day example_scheduled14 gap_keys weightKeys_add)
  then show "countStreakWeights ?c DEFAULTS exampleNow 120 = 3"
    by (simp add: countStreakWeights_char exampleNow_day example_scheduled14 gap_keys
          weightKeys_add)
qed

lemma example_range:
  "expectedPoints (computeScheduleAdherenceForRange 1 None [] [] (addDays exampleNow 1)) = 0"
  "expectedPoints (computeScheduleAdherenceForRange 2 None (STORE_WEIGHTS exampleStore)
      (STORE_INJECTIONS exampleStore) exampleNow) = 3"
proof -
  have u: "[0..<nat 1] = [0]" "[0..<nat 2] = [0, 1]" by code_simp+
  show "expectedPoints (computeScheduleAdherenceForRange 1 None [] [] (addDays exampleNow 1)) = 0"
    unfolding computeScheduleAdherenceForRange_def Let_def u
    by (simp add: hasDow_def weighDowsOf_def injDowOf_def clampNumber_def DEFAULTS_def
          startOfDay_def getLocalDateKey_def getDay_def addDays_def msPerDay_def exampleNow_def)
  show "expectedPoints (computeScheduleAdherenceForRange 2 None (STORE_WEIGHTS exampleStore)
      (STORE_INJECTIONS exampleStore) exampleNow) = 3"
    unfolding computeScheduleAdherenceForRange_def Let_def u
    by (simp add: hasDow_def weighDowsOf_def injDowOf_def clampNumber_def DEFAULTS_def
          startOfDay_def getLocalDateKey_def getDay_def addDays_def msPerDay_def exampleNow_def)
qed

theorem weeklyConsistency_adherence_witness:
  "expectedPoints (weeklyConsistency exampleCache DEFAULTS exampleNow 0) = 5
   \<and> pct (weeklyConsistency exampleCache DEFAULTS exampleNow 0) = 100
   \<and> expectedPoints (weeklyConsistency exampleCache DEFAULTS exampleNow 1) = 5
   \<and> pct (weeklyConsistency exampleCache DEFAULTS exampleNow 1) \<noteq> 100
   \<and> expectedPoints (weeklyConsistency exampleCache
         (fractionalSettings\<lparr> weighDaysOfWeek := Some [] \<rparr>) exampleNow 0) = 0
   \<and> pct (weeklyConsistency exampleCache
         (fractionalSettings\<lparr> weighDaysOfWeek := Some [] \<rparr>) exampleNow 0) = 0
   \<and> pct (computeScheduleAdherenceForRange 1 None [] [] (addDays exampleNow 1)) = 0
   \<and> expectedPoints (computeScheduleAdherenceForRange 2 None (STORE_WEIGHTS exampleStore)
         (STORE_INJECTIONS exampleStore) exampleNow) = 3
   \<and> pct (computeScheduleAdherenceForRange 2 None (STORE_WEIGHTS exampleStore)
         (STORE_INJECTIONS exampleStore) exampleNow) \<le> 100"
proof -
  note w0 = weeklyConsistency_adherence[where c = exampleCache and s = DEFAULTS
      and nowDate = exampleNow and weekOffset = 0, THEN conjunct1]
  note w1 = weeklyConsistency_adherence[where c = exampleCache and s = DEFAULTS
      and nowDate = exampleNow and weekOffset = 1, THEN conjunct1]
  note wf = weeklyConsistency_adherence[where c = exampleCache
      and s = "fractionalSettings\<lparr> weighDaysOfWeek := Some [] \<rparr>"
      and nowDate = exampleNow and weekOffset = 0, THEN conjunct1]
  note q1 = weeklyConsistency_adherence[where nowDate = "addDays exampleNow 1"
      and rangeDays = 1 and settings = None and ws = "[]" and ijs = "[]",
      THEN conjunct2, unfolded Let_def]
  note q2 = weeklyConsistency_adherence[where nowDate = exampleNow and rangeDays = 2
      and settings = None and ws = "STORE_WEIGHTS exampleStore"
      and ijs = "STORE_INJECTIONS exampleStore", THEN conjunct2, unfolded Let_def]
  have a: "expectedPoints (weeklyConsistency exampleCache DEFAULTS exampleNow 0) = 5
   \<and> pct (weeklyConsistency exampleCache DEFAULTS exampleNow 0) = 100
   \<and> expectedPoints (weeklyConsistency exampleCache DEFAULTS exampleNow 1) = 5
   \<and> pct (weeklyConsistency exampleCache DEFAULTS exampleNow 1) \<noteq> 100
   \<and> expectedPoints (weeklyConsistency exampleCache
         (fractionalSettings\<lparr> weighDaysOfWeek := Some [] \<rparr>) exampleNow 0) = 0
   \<and> pct (weeklyConsistency exampleCache
         (fractionalSettings\<lparr> weighDaysOfWeek := Some [] \<rparr>) exampleNow 0) = 0"
    using w0 w1 wf
    unfolding Let_def example_weeks example_expected example_injKey fractional_injKey
    by (simp add: exampleCache_keys)
  have b: "pct (computeScheduleAdherenceForRange 1 None [] [] (addDays exampleNow 1)) = 0"
    using q1[THEN conjunct2, THEN conjunct2, THEN conjunct2, THEN conjunct2]
      example_range(1) by blast
  have c: "pct (computeScheduleAdherenceForRange 2 None (STORE_WEIGHTS exampleStore)
         (STORE_INJECTIONS exampleStore) exampleNow) \<le> 100"
    using q2[THEN conjunct2, THEN conjunct2, THEN conjunct2, THEN conjunct1] .
  show ?thesis
    using a b c example_range(2) by blast
qed



lemma everyDay_scheduled:
  "scheduledKeysBack (weighDowsOf everyDaySettings) today n = map (\<lambda>i. today - int i) [0..<n]"
proof -
  have "\<And>k. hasDow (weighDowsOf everyDaySettings) (dowOfKey k)"
  proof -
    fix k :: int
    have "0 \<le> (k + 4) mod 7 \<and> (k + 4) mod 7 < 7" by simp
    then have "(k + 4) mod 7 \<in> {0, 1, 2, 3, 4, 5, 6}" by auto
    then show "hasDow (weighDowsOf everyDaySettings) (dowOfKey k)"
      unfolding hasDow_def weighDowsOf_def everyDaySettings_def dowOfKey_def
      by (elim insertE emptyE) simp_all
  qed
  then show ?thesis unfolding scheduledKeysBack_def by simp
qed

lemma daily_keys:
  "weightKeys (fst (buildChecklistCache dailyStore)) = {k. 20463 \<le> k \<and> k \<le> 20582}"
proof -
  have k: "\<And>i. getLocalDateKey (dateTimeISO (dailyWeight i)) = 20582 - int i"
    by (simp add: dailyWeight_def getLocalDateKey_def msPerDay_def)
  have "weightKeys (fst (buildChecklistCache dailyStore)) = (\<lambda>i. 20582 - int i) ` {0..<120}"
    by (simp add: buildChecklistCache_def dailyStore_def Let_def k image_image)
  also have "\<dots> = {k. 20463 \<le> k \<and> k \<le> 20582}"
  proof (rule set_eqI)
    fix k :: int
    show "(k \<in> (\<lambda>i. 20582 - int i) ` {0..<120}) = (k \<in> {k. 20463 \<le> k \<and> k \<le> 20582})"
    proof
      assume "k \<in> (\<lambda>i. 20582 - int i) ` {0..<120}"
      then show "k \<in> {k. 20463 \<le> k \<and> k \<le> 20582}" by auto
    next
      assume "k \<in> {k. 20463 \<le> k \<and> k \<le> 20582}"
      then have "k = 20582 - int (nat (20582 - k))" "nat (20582 - k) < 120" by auto
      then show "k \<in> (\<lambda>i. 20582 - int i) ` {0..<120}" by (metis atLeastLessThan_iff image_eqI zero_le)
    qed
  qed
  finally show ?thesis .
qed

lemma daily_streaks:
  "countStreakWeights (fst (buildChecklistCache dailyStore)) everyDaySettings exampleNow 120 = 120"
  "countStreakWeights
     (fst (buildChecklistCache
        (dailyStore\<lparr> STORE_WEIGHTS := sundayWeight # STORE_WEIGHTS dailyStore \<rparr>)))
     everyDaySettings (addDays exampleNow 1) 120 = 120"
proof -
  have t: "\<And>P xs. (\<forall>x \<in> set xs. P x) \<Longrightarrow> length (takeWhile P xs) = length xs"
    by (simp add: takeWhile_eq_all_conv[THEN iffD2])
  show "countStreakWeights (fst (buildChecklistCache dailyStore)) everyDaySettings exampleNow 120 = 120"
    unfolding countStreakWeights_char everyDay_scheduled daily_keys exampleNow_day
    by (subst t) auto
  have s: "getLocalDateKey (dateTimeISO sundayWeight) = 20583"
    by (simp add: sundayWeight_def getLocalDateKey_def msPerDay_def)
  show "countStreakWeights
     (fst (buildChecklistCache
        (dailyStore\<lparr> STORE_WEIGHTS := sundayWeight # STORE_WEIGHTS dailyStore \<rparr>)))
     everyDaySettings (addDays exampleNow 1) 120 = 120"
    unfolding countStreakWeights_char everyDay_scheduled weightKeys_add daily_keys s
      getLocalDateKey_addDays exampleNow_day
    by (subst t) auto
qed

text \<open>
  Against C3 as stated: with weights on Friday and Monday only, the streak is 1 and the
  record added on the missing Wednesday makes it 3; with a weight on each of the last
  120 days and every day scheduled, the streak is 120 and stays 120 when the next day
  gets its record.
\<close>

theorem weigh_streak_counterexample:
  "weightKeys (fst (buildChecklistCache gapStore)) = {20577, 20581}
   \<and> scheduledKeysBack (weighDowsOf DEFAULTS) (getLocalDateKey exampleNow) 7
        = [20581, 20579, 20577]
   \<and> getLocalDateKey (dateTimeISO wednesdayWeight) = 20579
   \<and> countStreakWeights (fst (buildChecklistCache gapStore)) DEFAULTS exampleNow 120 = 1
   \<and> countStreakWeights
        (fst (buildChecklistCache
           (gapStore\<lparr> STORE_WEIGHTS := wednesdayWeight # STORE_WEIGHTS gapStore \<rparr>)))
        DEFAULTS exampleNow 120 = 3
   \<and> countStreakWeights (fst (buildChecklistCache dailyStore)) everyDaySettings
        exampleNow 120 = 120
   \<and> getLocalDateKey (dateTimeISO sundayWeight) = getLocalDateKey (addDays exampleNow 1)
   \<and> countStreakWeights
        (fst (buildChecklistCache
           (dailyStore\<lparr> STORE_WEIGHTS := sundayWeight # STORE_WEIGHTS dailyStore \<rparr>)))
        everyDaySettings (addDays exampleNow 1) 120 = 120"
proof -
  have "getLocalDateKey (dateTimeISO sundayWeight) = getLocalDateKey (addDays exampleNow 1)"
    by (simp add: getLocalDateKey_addDays exampleNow_day sundayWeight_def)
       (simp add: getLocalDateKey_def msPerDay_def)
  then show ?thesis
    by (simp add: gap_streaks gap_keys exampleNow_day example_scheduled daily_streaks)
qed

lemma friday_lists:
  "dropWhile (\<lambda>k. k \<in> weightKeys (fst (buildChecklistCache fridayStore)))
     (scheduledKeysBack (weighDowsOf DEFAULTS) (getLocalDateKey exampleNow) 7) = [20579, 20577]"
  "dropWhile (\<lambda>k. k \<in> weightKeys (fst (buildChecklistCache gapStore)))
     (scheduledKeysBack (weighDowsOf DEFAULTS) (getLocalDateKey exampleNow) 7) = [20579, 20577]"
  by (simp_all add: exampleNow_day example_scheduled gap_keys)

lemma friday_removed:
  "filter (\<lambda>x. getLocalDateKey (dateTimeISO x) \<noteq> 20581) (STORE_WEIGHTS fridayStore) = []"
  by (simp add: fridayStore_def getLocalDateKey_def msPerDay_def)

lemma monday_lists:
  "getLocalDateKey (dateTimeISO mondayWeight) = 20584"
  "scheduledKeysBack (weighDowsOf DEFAULTS) 20584 2 = [20584]"
  "scheduledKeysBack (weighDowsOf DEFAULTS) 20582 12 = [20581, 20579, 20577, 20574, 20572]"
    apply (simp add: mondayWeight_def getLocalDateKey_def msPerDay_def)
   apply (simp add: eval_nat_numeral scheduledKeysBack_Suc scheduledKeysBack_0 hasDow_def
        dowOfKey_def weighDowsOf_def DEFAULTS_def)
  apply (simp add: eval_nat_numeral scheduledKeysBack_Suc scheduledKeysBack_0 hasDow_def
        dowOfKey_def weighDowsOf_def DEFAULTS_def)
  done

theorem weigh_streak_scan_witness:
  "countStreakWeights (fst (buildChecklistCache fridayStore)) DEFAULTS exampleNow 7 = 1
   \<and> countStreakWeights
        (fst (buildChecklistCache
           (fridayStore\<lparr> STORE_WEIGHTS := wednesdayWeight # STORE_WEIGHTS fridayStore \<rparr>)))
        DEFAULTS exampleNow 7 = 2
   \<and> countStreakWeights (fst (buildChecklistCache gapStore)) DEFAULTS exampleNow 7 = 1
   \<and> countStreakWeights
        (fst (buildChecklistCache
           (gapStore\<lparr> STORE_WEIGHTS := wednesdayWeight # STORE_WEIGHTS gapStore \<rparr>)))
        DEFAULTS exampleNow 7 = 3
   \<and> countStreakWeights
        (fst (buildChecklistCache (fridayStore\<lparr> STORE_WEIGHTS := [] \<rparr>)))
        DEFAULTS exampleNow 7 = 0
   \<and> countStreakWeights (fst (buildChecklistCache exampleStore)) DEFAULTS exampleNow 14 = 3
   \<and> countStreakWeights
        (fst (buildChecklistCache
           (exampleStore\<lparr> STORE_WEIGHTS := mondayWeight # STORE_WEIGHTS exampleStore \<rparr>)))
        DEFAULTS (addDays exampleNow 2) 14 = 4"
proof -
  have a: "countStreakWeights (fst (buildChecklistCache fridayStore)) DEFAULTS exampleNow 7 = 1
   \<and> countStreakWeights
        (fst (buildChecklistCache
           (fridayStore\<lparr> STORE_WEIGHTS := wednesdayWeight # STORE_WEIGHTS fridayStore \<rparr>)))
        DEFAULTS exampleNow 7 = 2
   \<and> countStreakWeights (fst (buildChecklistCache gapStore)) DEFAULTS exampleNow 7 = 1
   \<and> countStreakWeights
        (fst (buildChecklistCache
           (gapStore\<lparr> STORE_WEIGHTS := wednesdayWeight # STORE_WEIGHTS gapStore \<rparr>)))
        DEFAULTS exampleNow 7 = 3
   \<and> countStreakWeights
        (fst (buildChecklistCache (fridayStore\<lparr> STORE_WEIGHTS := [] \<rparr>)))
        DEFAULTS exampleNow 7 = 0"
    using weigh_streak_scan[where st = fridayStore and s = DEFAULTS and nowDate = exampleNow
        and n = 7 and w = wednesdayWeight]
      weigh_streak_scan[where st = gapStore and s = DEFAULTS and nowDate = exampleNow
        and n = 7 and w = wednesdayWeight]
    unfolding Let_def friday_lists
    by (simp add: exampleNow_day example_scheduled gap_keys friday_removed)
  note t = weigh_streak_scan[where st = exampleStore and s = DEFAULTS and nowDate = exampleNow
        and n = 14 and w = mondayWeight, unfolded Let_def]
  have b: "countStreakWeights (fst (buildChecklistCache exampleStore)) DEFAULTS exampleNow 14 = 3"
    using t[THEN conjunct1]
    by (simp add: exampleNow_day example_scheduled14 exampleCache_keys[unfolded exampleCache_def])
  have "countStreakWeights
        (fst (buildChecklistCache
           (exampleStore\<lparr> STORE_WEIGHTS := mondayWeight # STORE_WEIGHTS exampleStore \<rparr>)))
        DEFAULTS (addDays exampleNow (int 2)) 14
      = countStreakWeights (fst (buildChecklistCache exampleStore)) DEFAULTS exampleNow 14 + 1"
    by (rule t[THEN conjunct2, THEN conjunct2, THEN conjunct1, rule_format, of 2])
       (simp add: exampleNow_day monday_lists exampleCache_keys[unfolded exampleCache_def])
  with b have c: "countStreakWeights
        (fst (buildChecklistCache
           (exampleStore\<lparr> STORE_WEIGHTS := mondayWeight # STORE_WEIGHTS exampleStore \<rparr>)))
        DEFAULTS (addDays exampleNow 2) 14 = 4" by simp
  from a b c show ?thesis by (intro conjI) simp_all
qed

lemma measuresEvery_examples:
  "measuresEvery DEFAULTS = Some 14"
  "measuresEvery (DEFAULTS\<lparr> measureReminderEveryDays := JNum (Fin (37 / 10)) \<rparr>) = Some 7"
  "measuresEvery (DEFAULTS\<lparr> measureReminderEveryDays := JNum (Fin (43 / 2)) \<rparr>) = Some 21"
  "measuresEvery (DEFAULTS\<lparr> measureReminderEveryDays := JNum (Fin 0) \<rparr>) = Some 14"
proof -
  have f: "\<lfloor>37 / 10 :: real\<rfloor> = 3" "\<lfloor>43 / 2 :: real\<rfloor> = 21" by linarith+
  show "measuresEvery DEFAULTS = Some 14" by (simp add: measuresEvery_eq DEFAULTS_def)
  show "measuresEvery (DEFAULTS\<lparr> measureReminderEveryDays := JNum (Fin (37 / 10)) \<rparr>) = Some 7"
    by (simp add: measuresEvery_eq f)
  show "measuresEvery (DEFAULTS\<lparr> measureReminderEveryDays := JNum (Fin (43 / 2)) \<rparr>) = Some 21"
    by (simp add: measuresEvery_eq f)
  show "measuresEvery (DEFAULTS\<lparr> measureReminderEveryDays := JNum (Fin 0) \<rparr>) = Some 14"
    by (simp add: measuresEvery_eq)
qed

lemma computeMeasuresDueDateKey_examples:
  "computeMeasuresDueDateKey exampleCache DEFAULTS 20582 = Some 20584"
  "computeMeasuresDueDateKey exampleCache DEFAULTS 20590 = Some 20590"
  "computeMeasuresDueDateKey (exampleCache\<lparr> lastMeasures := None \<rparr>) DEFAULTS 20582 = Some 20582"
proof -
  note l = exampleCache_keys(4)
  show "computeMeasuresDueDateKey exampleCache DEFAULTS 20582 = Some 20584"
    using computeMeasuresDueDateKey_four_digit_years[OF measuresEvery_examples(1) l,
        where todayKey = 20582]
    by (simp add: minKey4_def maxKey4_def)
  show "computeMeasuresDueDateKey exampleCache DEFAULTS 20590 = Some 20590"
    using computeMeasuresDueDateKey_four_digit_years[OF measuresEvery_examples(1) l,
        where todayKey = 20590]
    by (simp add: minKey4_def maxKey4_def)
  show "computeMeasuresDueDateKey (exampleCache\<lparr> lastMeasures := None \<rparr>) DEFAULTS 20582
          = Some 20582"
    by (simp add: computeMeasuresDueDateKey_no_measurement)
qed

theorem next_weekly_occurrence_witness:
  "computeNextScheduledDateTime DEFAULTS exampleNow = 1778925060000
   \<and> exampleNow < computeNextScheduledDateTime DEFAULTS exampleNow
   \<and> getDay (computeNextScheduledDateTime DEFAULTS exampleNow) = 6
   \<and> timeOfDay (computeNextScheduledDateTime DEFAULTS exampleNow) = 35460000
   \<and> computeNextScheduledDateTime DEFAULTS 1778320260000 = 1778925060000
   \<and> computeNextScheduledDateTime DEFAULTS 1778320259999 = 1778320260000
   \<and> computeNextScheduledDateTime DEFAULTS 1778241600000 = 1778320260000"
  using next_weekly_occurrence[of 6 9 51 DEFAULTS exampleNow]
    next_weekly_occurrence[of 6 9 51 DEFAULTS 1778320260000]
    next_weekly_occurrence[of 6 9 51 DEFAULTS 1778320259999]
    next_weekly_occurrence[of 6 9 51 DEFAULTS 1778241600000]
  by (simp add: DEFAULTS_def Let_def exampleNow_def startOfDay_def getLocalDateKey_def
        getDay_def addDays_def msPerDay_def timeOfDay_def)

lemma example_lists:
  "STORE_WEIGHTS exampleStore =
         [\<lparr> dateTimeISO = 1777881600000, weightKg = 80 \<rparr>,
          \<lparr> dateTimeISO = 1778054400000, weightKg = 159 / 2 \<rparr>,
          \<lparr> dateTimeISO = 1778227200000, weightKg = 79 \<rparr>]"
  "STORE_INJECTIONS exampleStore =
         [\<lparr> dateTimeISO = 1777715460000, nausea = JNum (Fin 9) \<rparr>,
          \<lparr> dateTimeISO = 1778320260000, nausea = JNum (Fin 8) \<rparr>,
          \<lparr> dateTimeISO = 1777110660000, nausea = JNum (Fin 3) \<rparr>]"
  by (simp_all add: exampleStore_def)

theorem insufficient_data_undefined_witness:
  "meanDays (computeInjectionRegularity (STORE_INJECTIONS exampleStore)) = Some 7
   \<and> onTimeRate (computeInjectionRegularity (STORE_INJECTIONS exampleStore)) = Some 1
   \<and> deltaKg (computeWeightTrend (STORE_WEIGHTS exampleStore)) = Some (- 1)
   \<and> perWeekKg (computeWeightTrend (STORE_WEIGHTS exampleStore)) = Some (- (7 / 4))
   \<and> meanDays (computeInjectionRegularity [\<lparr> dateTimeISO = 1777715460000, nausea = JNull \<rparr>])
        = None
   \<and> onTimeRate (computeInjectionRegularity [\<lparr> dateTimeISO = 1777715460000, nausea = JNull \<rparr>])
        = None
   \<and> deltaKg (computeWeightTrend [\<lparr> dateTimeISO = 1777881600000, weightKg = 80 \<rparr>]) = None
   \<and> perWeekKg (computeWeightTrend []) = None"
  using insufficient_data_undefined[of "STORE_INJECTIONS exampleStore" "STORE_WEIGHTS exampleStore"]
    insufficient_data_undefined[of "[\<lparr> dateTimeISO = 1777715460000, nausea = JNull \<rparr>]"
      "[\<lparr> dateTimeISO = 1777881600000, weightKg = 80 \<rparr>]"]
    insufficient_data_undefined[of "[]" "[]"]
  unfolding example_lists
  by (simp add: Let_def sortByDateTimeAsc_def daysBetween_def)

lemma example_injections:
  "injections exampleCache =
         [\<lparr> dateTimeISO = 1777715460000, nausea = JNum (Fin 9) \<rparr>,
          \<lparr> dateTimeISO = 1778320260000, nausea = JNum (Fin 8) \<rparr>,
          \<lparr> dateTimeISO = 1777110660000, nausea = JNum (Fin 3) \<rparr>]"
  "injections (fst (buildChecklistCache calmStore)) =
         [\<lparr> dateTimeISO = 1777110660000, nausea = JNum (Fin 9) \<rparr>,
          \<lparr> dateTimeISO = 1777715460000, nausea = JNum (Fin 3) \<rparr>,
          \<lparr> dateTimeISO = 1778320260000, nausea = JNum (Fin 8) \<rparr>]"
  by (simp_all add: exampleCache_def calmStore_def exampleStore_def buildChecklistCache_def Let_def)

lemma example_scores:
  "nauseaScore \<lparr> dateTimeISO = t, nausea = JNum (Fin 9) \<rparr> = 9"
  "nauseaScore \<lparr> dateTimeISO = t, nausea = JNum (Fin 8) \<rparr> = 8"
  "nauseaScore \<lparr> dateTimeISO = t, nausea = JNum (Fin 3) \<rparr> = 3"
  by (simp_all add: nauseaScore_def clampNumber_def)

theorem recurring_high_nausea_witness:
  "\<lparr> title = HighNausea, severity = Danger \<rparr> \<in> set (buildLocalInsights exampleCache DEFAULTS exampleNow)
   \<and> \<lparr> title = HighNausea, severity = Danger \<rparr>
        \<notin> set (buildLocalInsights (fst (buildChecklistCache calmStore)) DEFAULTS exampleNow)"
proof -
  note a = recurring_high_nausea[of exampleCache DEFAULTS exampleNow,
      THEN conjunct2, THEN conjunct1, rule_format,
      of "\<lparr> dateTimeISO = 1778320260000, nausea = JNum (Fin 8) \<rparr>"
         "\<lparr> dateTimeISO = 1777715460000, nausea = JNum (Fin 9) \<rparr>"]
  note b = recurring_high_nausea[of "fst (buildChecklistCache calmStore)" DEFAULTS exampleNow,
      THEN conjunct2, THEN conjunct1, rule_format,
      of "\<lparr> dateTimeISO = 1778320260000, nausea = JNum (Fin 8) \<rparr>"
         "\<lparr> dateTimeISO = 1777715460000, nausea = JNum (Fin 3) \<rparr>"]
  have "\<lparr> title = HighNausea, severity = Danger \<rparr>
          \<in> set (buildLocalInsights exampleCache DEFAULTS exampleNow)"
    using a by (simp add: example_injections example_scores)
  moreover have "\<lparr> title = HighNausea, severity = Danger \<rparr>
        \<notin> set (buildLocalInsights (fst (buildChecklistCache calmStore)) DEFAULTS exampleNow)"
    using b by (simp add: example_injections example_scores)
  ultimately show ?thesis by simp
qed

lemma friday_cache:
  "weightKeys (fst (buildChecklistCache fridayStore)) = {20581}"
  "injectionKeys (fst (buildChecklistCache fridayStore)) = {20575, 20582, 20568}"
  "measuresKeys (fst (buildChecklistCache fridayStore)) = {20570}"
  "lastMeasures (fst (buildChecklistCache fridayStore)) = Some \<lparr> dateISO = 20570 \<rparr>"
  "fst (getSettings fridayStore) = DEFAULTS"
  by (simp_all add: buildChecklistCache_def fridayStore_def exampleStore_def Let_def
        getLocalDateKey_def msPerDay_def sortByDateDesc_def getSettings_def)

lemmas checklist_defs = buildChecklistForDate_def weightItems_def injectionItems_def
  measuresItems_def computeMeasuresDueDateKey_def measuresEvery_def falsyOr_def getStatus_def
  isValidDate_def isWeightLoggedOn_def isInjectionLoggedOn_def isMeasuresLoggedOn_def
  isAfterTimeHHmm_def atTime_def CHECKLIST_CUTOFF_TIME_def parseDateKeyToLocalDate_def

lemma defaults_fields:
  "weighDaysOfWeek DEFAULTS = Some [Fin 1, Fin 3, Fin 5]"
  "injectionDayOfWeek DEFAULTS = JNum (Fin 6)"
  "measureReminderEveryDays DEFAULTS = JNum (Fin 14)"
  by (simp_all add: DEFAULTS_def)

lemma friday_overdue_days:
  "overdueOfDay (addDays (startOfDay exampleNow) (- int 1)) (fst (buildChecklistCache fridayStore))
     DEFAULTS exampleNow = []"
  "overdueOfDay (addDays (startOfDay exampleNow) (- int 2)) (fst (buildChecklistCache fridayStore))
     DEFAULTS exampleNow = []"
  "overdueOfDay (addDays (startOfDay exampleNow) (- int 3)) (fst (buildChecklistCache fridayStore))
     DEFAULTS exampleNow =
     [\<lparr> kind = Weight, dateKey = 20579, required = True, isDone = False,
        warnAfterCutoff = Some False, status = Some Late \<rparr>]"
  "overdueOfDay (addDays (startOfDay exampleNow) (- int 4)) (fst (buildChecklistCache fridayStore))
     DEFAULTS exampleNow = []"
  "overdueOfDay (addDays (startOfDay exampleNow) (- int 5)) (fst (buildChecklistCache fridayStore))
     DEFAULTS exampleNow =
     [\<lparr> kind = Weight, dateKey = 20577, required = True, isDone = False,
        warnAfterCutoff = Some False, status = Some Late \<rparr>]"
  "overdueOfDay (addDays (startOfDay exampleNow) (- int 6)) (fst (buildChecklistCache fridayStore))
     DEFAULTS exampleNow = []"
  "overdueOfDay (addDays (startOfDay exampleNow) (- int 7)) (fst (buildChecklistCache fridayStore))
     DEFAULTS exampleNow = []"
  unfolding overdueOfDay_def checklist_defs friday_cache defaults_fields exampleNow_day
  by (simp_all add: Let_def addDays_def getLocalDateKey_def getDay_def msPerDay_def
        exampleNow_def compareDateKeys_eval)

lemma upt_1_8: "[1..<Suc 7] = [1, 2, 3, 4, 5, 6, 7]"
  by code_simp

theorem buildOverdueChecklist_late_items_witness:
  "fst (buildOverdueChecklist 7 exampleNow fridayStore) =
     [\<lparr> kind = Weight, dateKey = 20579, required = True, isDone = False,
        warnAfterCutoff = Some False, status = Some Late \<rparr>,
      \<lparr> kind = Weight, dateKey = 20577, required = True, isDone = False,
        warnAfterCutoff = Some False, status = Some Late \<rparr>]
   \<and> snd (buildOverdueChecklist 7 exampleNow fridayStore) = fridayStore
   \<and> buildOverdueChecklist 7 exampleNow (snd (buildOverdueChecklist 7 exampleNow fridayStore))
        = buildOverdueChecklist 7 exampleNow fridayStore"
  using buildOverdueChecklist_late_items[where daysBack = 7 and nowDate = exampleNow
      and st = fridayStore]
  unfolding Let_def friday_cache(5) upt_1_8
  using friday_overdue_days by simp

lemma example_checklists:
  "buildChecklistForDate 1778457600000 exampleCache DEFAULTS exampleNow =
     [\<lparr> kind = Weight, dateKey = 20584, required = True, isDone = False,
        warnAfterCutoff = Some False, status = Some Pending \<rparr>,
      \<lparr> kind = Measures, dateKey = 20584, required = False, isDone = False,
        warnAfterCutoff = None, status = Some Pending \<rparr>]"
  "buildChecklistForDate exampleNow (exampleCache\<lparr> injectionKeys := {} \<rparr>) DEFAULTS exampleNow =
     [\<lparr> kind = Injection, dateKey = 20582, required = True, isDone = False,
        warnAfterCutoff = Some True, status = Some Pending \<rparr>]"
  unfolding checklist_defs defaults_fields exampleNow_day
  by (simp_all add: Let_def exampleCache_keys getLocalDateKey_def getDay_def msPerDay_def
        addDays_def exampleNow_def compareDateKeys_eval)

lemma example_upcoming:
  "fst (buildUpcomingChecklist 2 exampleNow exampleStore) =
     [(20584, 1,
       [\<lparr> kind = Weight, dateKey = 20584, required = True, isDone = False,
           warnAfterCutoff = Some False, status = Some Pending \<rparr>,
        \<lparr> kind = Measures, dateKey = 20584, required = False, isDone = False,
           warnAfterCutoff = None, status = Some Pending \<rparr>])]"
proof -
  have u: "[1..<Suc 2] = [1, 2]" by code_simp
  have s: "getSettings exampleStore = (DEFAULTS, exampleStore)"
    by (simp add: getSettings_def exampleStore_def)
  have c: "buildChecklistCache exampleStore = (exampleCache, exampleStore)"
    by (simp add: exampleCache_def buildChecklistCache_def Let_def)
  have d1: "buildChecklistForDate (addDays (startOfDay exampleNow) 1) exampleCache DEFAULTS
       exampleNow = []"
    unfolding checklist_defs defaults_fields exampleNow_day
    by (simp add: Let_def exampleCache_keys getLocalDateKey_def getDay_def msPerDay_def
        addDays_def exampleNow_def compareDateKeys_eval)
  have d2: "addDays (startOfDay exampleNow) 2 = 1778457600000"
    by (simp add: exampleNow_day addDays_def msPerDay_def)
  have k: "getLocalDateKey 1778457600000 = 20584" "getDay 1778457600000 = 1"
    by (simp_all add: getLocalDateKey_def getDay_def msPerDay_def)
  show ?thesis
    unfolding buildUpcomingChecklist_def u
    by (simp add: s c Let_def d1 d2 k example_checklists)
qed

theorem measures_items_optional_witness:
  "buildChecklistForDate 1778457600000 exampleCache DEFAULTS exampleNow =
     [\<lparr> kind = Weight, dateKey = 20584, required = True, isDone = False,
        warnAfterCutoff = Some False, status = Some Pending \<rparr>,
      \<lparr> kind = Measures, dateKey = 20584, required = False, isDone = False,
        warnAfterCutoff = None, status = Some Pending \<rparr>]
   \<and> buildChecklistForDate exampleNow (exampleCache\<lparr> injectionKeys := {} \<rparr>) DEFAULTS exampleNow =
     [\<lparr> kind = Injection, dateKey = 20582, required = True, isDone = False,
        warnAfterCutoff = Some True, status = Some Pending \<rparr>]
   \<and> isAfterTimeHHmm exampleNow CHECKLIST_CUTOFF_TIME
   \<and> map kind (fst (buildOverdueChecklist 7 exampleNow fridayStore)) = [Weight, Weight]
   \<and> map warnAfterCutoff (fst (buildOverdueChecklist 7 exampleNow fridayStore))
        = [Some False, Some False]
   \<and> map fst (fst (buildUpcomingChecklist 2 exampleNow exampleStore)) = [20584]"
proof -
  note t1 = measures_items_optional[where date = exampleNow
      and c = "exampleCache\<lparr> injectionKeys := {} \<rparr>" and s = DEFAULTS and nowDate = exampleNow
      and daysBack = 7 and st = fridayStore]
  note t3 = measures_items_optional[where nowDate = exampleNow and days = 2
      and st = exampleStore]
  note t2 = measures_items_optional[where date = 1778457600000
      and c = exampleCache and s = DEFAULTS and nowDate = exampleNow
      and daysBack = 7 and st = fridayStore]
  have cut: "isAfterTimeHHmm exampleNow CHECKLIST_CUTOFF_TIME"
    using t1[THEN conjunct2, THEN conjunct1] by (simp add: example_checklists)
  have ov: "fst (buildOverdueChecklist 7 exampleNow fridayStore) =
     [\<lparr> kind = Weight, dateKey = 20579, required = True, isDone = False,
        warnAfterCutoff = Some False, status = Some Late \<rparr>,
      \<lparr> kind = Weight, dateKey = 20577, required = True, isDone = False,
        warnAfterCutoff = Some False, status = Some Late \<rparr>]"
    unfolding buildOverdueChecklist_eq friday_cache(5) upt_1_8
    using friday_overdue_days by simp
  show ?thesis
    using t1 t2 t3 cut by (simp add: example_checklists ov example_upcoming)
qed

end
